theory Spec2Isabelle
  imports Main "HOL-Library.Word"
begin

section \<open>The inode collaborator\<close>

text \<open>
  The directory layer of \<^verbatim>\<open>filesys/directory.c\<close> stores its table inside an inode and
  reaches it only through the interface of \<^verbatim>\<open>filesys/inode.c\<close>, which is not among the
  sources.  An open inode (\<^verbatim>\<open>struct inode *\<close>) is identified by its sector number, a
  null pointer is \<open>None\<close>.  The byte stream of a directory inode is kept as the list of
  its records; an offset counts records (the byte offset of the C code is the index times
  \<^verbatim>\<open>sizeof (struct dir_entry)\<close>), so a read of \<^verbatim>\<open>sizeof e\<close> bytes is complete
  exactly when the index is below the length of that list.  A C string is the list of its
  characters before the terminator, so \<^verbatim>\<open>strcmp\<close> finds two strings equal when the
  lists are equal.  Where a function asserts that a pointer is not null and the model
  gives the argument a type without a null value, the assertion holds.
\<close>

type_synonym block_sector_t = nat

text \<open>\<^verbatim>\<open>ROOT_DIR_SECTOR\<close> (filesys.h) and \<^verbatim>\<open>NAME_MAX\<close> (directory.h) are declared in
  headers outside the sources; \<^verbatim>\<open>dir_remove\<close> writes the root sector as the literal 1.\<close>

definition ROOT_DIR_SECTOR :: block_sector_t where
  "ROOT_DIR_SECTOR = 1"

definition NAME_MAX :: nat where
  "NAME_MAX = 14"

record dir_entry =
  inode_sector :: block_sector_t
  name :: string
  in_use :: bool

record inode_t =
  is_dir :: bool
  parent :: block_sector_t
  open_cnt :: nat
  removed :: bool
  data :: "dir_entry list"

text \<open>The kernel state the directory layer works on: the inodes by sector, and the
  outcomes of the allocator (\<open>alloc_ok n\<close> tells whether the \<open>n\<close>-th request for
  memory is served).\<close>

record kernel =
  inodes :: "block_sector_t \<Rightarrow> inode_t option"
  alloc_ok :: "nat \<Rightarrow> bool"
  alloc_cnt :: nat

text \<open>Modelled from the spec: the inode collaborator's \<^verbatim>\<open>open(id) -> handle | null\<close>,
  with reference counting of open inodes.\<close>

definition inode_open :: "kernel \<Rightarrow> block_sector_t \<Rightarrow> block_sector_t option \<times> kernel" where
  "inode_open k s =
     (case inodes k s of
        None \<Rightarrow> (None, k)
      | Some i \<Rightarrow> (Some s, k\<lparr>inodes := (inodes k)(s \<mapsto> i\<lparr>open_cnt := Suc (open_cnt i)\<rparr>)\<rparr>))"

text \<open>Modelled from the spec: \<^verbatim>\<open>reopen(handle) -> handle\<close>.\<close>

definition inode_reopen :: "kernel \<Rightarrow> block_sector_t option \<Rightarrow> block_sector_t option \<times> kernel" where
  "inode_reopen k h = (case h of None \<Rightarrow> (None, k) | Some s \<Rightarrow> inode_open k s)"

text \<open>Modelled from the spec: \<^verbatim>\<open>close(handle)\<close> releases one reference; closing a null
  pointer does nothing.  The reclamation of a removed inode at its last close is not
  part of the directory layer and is left out.\<close>

definition inode_close :: "kernel \<Rightarrow> block_sector_t option \<Rightarrow> kernel" where
  "inode_close k h =
     (case h of
        None \<Rightarrow> k
      | Some s \<Rightarrow>
          (case inodes k s of
             None \<Rightarrow> k
           | Some i \<Rightarrow> k\<lparr>inodes := (inodes k)(s \<mapsto> i\<lparr>open_cnt := open_cnt i - 1\<rparr>)\<rparr>))"

text \<open>Modelled from the spec: \<^verbatim>\<open>remove(handle)\<close> (unlink; the physical delete is deferred
  to the last close).\<close>

definition inode_remove :: "kernel \<Rightarrow> block_sector_t \<Rightarrow> kernel" where
  "inode_remove k s =
     (case inodes k s of
        None \<Rightarrow> k
      | Some i \<Rightarrow> k\<lparr>inodes := (inodes k)(s \<mapsto> i\<lparr>removed := True\<rparr>)\<rparr>)"

text \<open>Modelled from the spec: \<^verbatim>\<open>get_id\<close>, \<^verbatim>\<open>get_parent\<close>, \<^verbatim>\<open>is_directory\<close> and
  \<^verbatim>\<open>open_count\<close> of a handle.\<close>

definition inode_get_inumber :: "block_sector_t \<Rightarrow> block_sector_t" where
  "inode_get_inumber s = s"

definition inode_get_parent :: "kernel \<Rightarrow> block_sector_t \<Rightarrow> block_sector_t" where
  "inode_get_parent k s = (case inodes k s of None \<Rightarrow> 0 | Some i \<Rightarrow> parent i)"

definition inode_is_dir :: "kernel \<Rightarrow> block_sector_t \<Rightarrow> bool" where
  "inode_is_dir k s = (case inodes k s of None \<Rightarrow> False | Some i \<Rightarrow> is_dir i)"

definition inode_get_open_cnt :: "kernel \<Rightarrow> block_sector_t \<Rightarrow> nat" where
  "inode_get_open_cnt k s = (case inodes k s of None \<Rightarrow> 0 | Some i \<Rightarrow> open_cnt i)"

text \<open>Modelled from the spec: \<^verbatim>\<open>set_parent_link(child_id, parent_id) -> bool\<close>.  Whether
  the collaborator accepts the link is its own decision (\<open>link_ok\<close>); an accepted link
  stores the parent in the child's inode.\<close>

definition inode_add_parent ::
  "bool \<Rightarrow> kernel \<Rightarrow> block_sector_t \<Rightarrow> block_sector_t \<Rightarrow> bool \<times> kernel" where
  "inode_add_parent link_ok k parent_sector child_sector =
     (if \<not> link_ok then (False, k)
      else
        (case inodes k child_sector of
           None \<Rightarrow> (True, k)
         | Some i \<Rightarrow>
             (True, k\<lparr>inodes := (inodes k)(child_sector \<mapsto> i\<lparr>parent := parent_sector\<rparr>)\<rparr>)))"

text \<open>Modelled from the spec: \<^verbatim>\<open>read_at\<close> for one record.  \<open>Some e\<close> is a read of
  \<^verbatim>\<open>sizeof e\<close> bytes, \<open>None\<close> a short read (end of the stream).\<close>

definition inode_read_at :: "kernel \<Rightarrow> block_sector_t \<Rightarrow> nat \<Rightarrow> dir_entry option" where
  "inode_read_at k s ofs =
     (case inodes k s of
        None \<Rightarrow> None
      | Some i \<Rightarrow> if ofs < length (data i) then Some (data i ! ofs) else None)"

text \<open>Modelled from the spec: \<^verbatim>\<open>write_at\<close> for one record; the backing store provides
  atomic single-record writes, so a record is written whole (\<open>True\<close>) or not at all
  (\<open>False\<close>, a short write).  Whether the store completes the write is its own outcome
  (\<open>wr_ok\<close>).  A write at the end of the stream extends it by one record.\<close>

definition inode_write_at ::
  "bool \<Rightarrow> kernel \<Rightarrow> block_sector_t \<Rightarrow> dir_entry \<Rightarrow> nat \<Rightarrow> bool \<times> kernel" where
  "inode_write_at wr_ok k s e ofs =
     (case inodes k s of
        None \<Rightarrow> (False, k)
      | Some i \<Rightarrow>
          if \<not> wr_ok \<or> length (data i) < ofs then (False, k)
          else
            (True,
             k\<lparr>inodes := (inodes k)(s \<mapsto>
                  i\<lparr>data := (if ofs < length (data i) then (data i)[ofs := e]
                              else data i @ [e])\<rparr>)\<rparr>))"

text \<open>Modelled from the spec: \<^verbatim>\<open>create(id, size, is_dir) -> bool\<close>; a new inode holds
  \<open>n\<close> zeroed records and is its own parent until it is linked.\<close>

definition zero_entry :: dir_entry where
  "zero_entry = \<lparr>inode_sector = 0, name = [], in_use = False\<rparr>"

definition inode_create :: "bool \<Rightarrow> kernel \<Rightarrow> block_sector_t \<Rightarrow> nat \<Rightarrow> bool \<Rightarrow> bool \<times> kernel" where
  "inode_create ok k s n isdir =
     (if \<not> ok then (False, k)
      else
        (True,
         k\<lparr>inodes := (inodes k)(s \<mapsto>
              \<lparr>is_dir = isdir, parent = s, open_cnt = 0, removed = False,
               data = replicate n zero_entry\<rparr>)\<rparr>))"

section \<open>The directory table (filesys/directory.c)\<close>

record dir =
  inode :: block_sector_t
  pos :: nat

definition table :: "kernel \<Rightarrow> block_sector_t \<Rightarrow> dir_entry list" where
  "table k s = (case inodes k s of None \<Rightarrow> [] | Some i \<Rightarrow> data i)"

definition dir_create :: "bool \<Rightarrow> kernel \<Rightarrow> block_sector_t \<Rightarrow> nat \<Rightarrow> bool \<times> kernel" where
  "dir_create ok k sector entry_cnt = inode_create ok k sector entry_cnt True"

definition dir_get_inode :: "dir \<Rightarrow> block_sector_t" where
  "dir_get_inode d = inode d"

text \<open>The scan of \<^verbatim>\<open>lookup\<close>: from \<open>ofs\<close> on, the first record in use with the name.\<close>

function lookup_from ::
  "kernel \<Rightarrow> block_sector_t \<Rightarrow> string \<Rightarrow> nat \<Rightarrow> (dir_entry \<times> nat) option" where
  "lookup_from k s nm ofs =
     (case inode_read_at k s ofs of
        None \<Rightarrow> None
      | Some e \<Rightarrow>
          if in_use e \<and> nm = name e then Some (e, ofs)
          else lookup_from k s nm (Suc ofs))"
  by pat_completeness auto
termination
  by (relation "measure (\<lambda>(k, s, nm, ofs). length (table k s) - ofs)")
     (auto simp: inode_read_at_def table_def split: option.splits if_splits)

definition lookup :: "kernel \<Rightarrow> dir \<Rightarrow> string \<Rightarrow> (dir_entry \<times> nat) option" where
  "lookup k d nm = lookup_from k (inode d) nm 0"

definition dir_lookup ::
  "kernel \<Rightarrow> dir \<Rightarrow> string \<Rightarrow> block_sector_t option \<times> kernel" where
  "dir_lookup k d nm =
     (case lookup k d nm of
        Some (e, ofs) \<Rightarrow> inode_open k (inode_sector e)
      | None \<Rightarrow> (None, k))"

text \<open>The second loop of \<^verbatim>\<open>dir_add\<close>: the offset of the first free slot, or the end
  of the stream.\<close>

function free_slot_from :: "kernel \<Rightarrow> block_sector_t \<Rightarrow> nat \<Rightarrow> nat" where
  "free_slot_from k s ofs =
     (case inode_read_at k s ofs of
        None \<Rightarrow> ofs
      | Some e \<Rightarrow> if \<not> in_use e then ofs else free_slot_from k s (Suc ofs))"
  by pat_completeness auto
termination
  by (relation "measure (\<lambda>(k, s, ofs). length (table k s) - ofs)")
     (auto simp: inode_read_at_def table_def split: option.splits if_splits)

text \<open>Modelled from the spec: \<^verbatim>\<open>strlcpy\<close> (lib/string.c is not among the sources)
  stores the bounded name of a record: at most \<open>sz - 1\<close> characters of the source.\<close>

definition strlcpy :: "string \<Rightarrow> nat \<Rightarrow> string" where
  "strlcpy src sz = take (sz - 1) src"

definition dir_add ::
  "bool \<Rightarrow> bool \<Rightarrow> kernel \<Rightarrow> dir \<Rightarrow> string \<Rightarrow> block_sector_t \<Rightarrow> bool \<times> kernel" where
  "dir_add link_ok wr_ok k d nm sec =
     (if nm = [] \<or> NAME_MAX < length nm then (False, k)
      else if lookup k d nm \<noteq> None then (False, k)
      else
        (case inode_add_parent link_ok k (inode_get_inumber (dir_get_inode d)) sec of
           (False, k1) \<Rightarrow> (False, k1)
         | (True, k1) \<Rightarrow>
             (let ofs = free_slot_from k1 (inode d) 0;
                  e = \<lparr>inode_sector = sec, name = strlcpy nm (NAME_MAX + 1), in_use = True\<rparr>
              in inode_write_at wr_ok k1 (inode d) e ofs)))"

text \<open>\<^verbatim>\<open>dir_is_empty\<close>: a scan of the whole table of the inode for a record in use.\<close>

function dir_is_empty_from :: "kernel \<Rightarrow> block_sector_t \<Rightarrow> nat \<Rightarrow> bool" where
  "dir_is_empty_from k s p =
     (case inode_read_at k s p of
        None \<Rightarrow> True
      | Some e \<Rightarrow> if in_use e then False else dir_is_empty_from k s (Suc p))"
  by pat_completeness auto
termination
  by (relation "measure (\<lambda>(k, s, p). length (table k s) - p)")
     (auto simp: inode_read_at_def table_def split: option.splits if_splits)

definition dir_is_empty :: "kernel \<Rightarrow> block_sector_t \<Rightarrow> bool" where
  "dir_is_empty k s = dir_is_empty_from k s 0"

definition dir_remove :: "bool \<Rightarrow> kernel \<Rightarrow> dir \<Rightarrow> string \<Rightarrow> bool \<times> kernel" where
  "dir_remove wr_ok k d nm =
     (case lookup k d nm of
        None \<Rightarrow> (False, inode_close k None)
      | Some (e, ofs) \<Rightarrow>
          (case inode_open k (inode_sector e) of
             (None, k1) \<Rightarrow> (False, inode_close k1 None)
           | (Some ino, k1) \<Rightarrow>
               if inode_is_dir k1 ino \<and> 1 < inode_get_open_cnt k1 ino
               then (False, inode_close k1 (Some ino))
               else if inode_is_dir k1 ino \<and> inode_get_inumber ino = 1
               then (False, inode_close k1 (Some ino))
               else if inode_is_dir k1 ino \<and> \<not> dir_is_empty k1 ino
               then (False, inode_close k1 (Some ino))
               else
                 (case inode_write_at wr_ok k1 (inode d) (e\<lparr>in_use := False\<rparr>) ofs of
                    (False, k2) \<Rightarrow> (False, inode_close k2 (Some ino))
                  | (True, k2) \<Rightarrow> (True, inode_close (inode_remove k2 ino) (Some ino)))))"

text \<open>\<^verbatim>\<open>dir_readdir\<close>: from the cursor of the handle, the name of the next record in
  use; the cursor moves past every record read.\<close>

function dir_readdir :: "kernel \<Rightarrow> dir \<Rightarrow> string option \<times> dir" where
  "dir_readdir k d =
     (case inode_read_at k (inode d) (pos d) of
        None \<Rightarrow> (None, d)
      | Some e \<Rightarrow>
          (let d' = d\<lparr>pos := Suc (pos d)\<rparr>
           in if in_use e then (Some (strlcpy (name e) (NAME_MAX + 1)), d')
              else dir_readdir k d'))"
  by pat_completeness auto
termination
  by (relation "measure (\<lambda>(k, d). length (table k (inode d)) - pos d)")
     (auto simp: inode_read_at_def table_def split: option.splits if_splits)

section \<open>Path resolution (filesys/directory.c)\<close>

text \<open>
  A kernel panic or an undefined read ends the run of the kernel; they are the error
  values of the functions below.
\<close>

datatype kpanic = Null_deref | Assert_failed | Uninit_read

text \<open>Modelled from the spec: the allocator behind \<^verbatim>\<open>calloc\<close> and \<^verbatim>\<open>malloc\<close>
  (threads/malloc.c is not among the sources), which serves a request or fails it with a
  null pointer (resource exhaustion).\<close>

definition kalloc :: "kernel \<Rightarrow> bool \<times> kernel" where
  "kalloc k = (alloc_ok k (alloc_cnt k), k\<lparr>alloc_cnt := Suc (alloc_cnt k)\<rparr>)"

definition dir_open :: "kernel \<Rightarrow> block_sector_t option \<Rightarrow> dir option \<times> kernel" where
  "dir_open k ino =
     (case kalloc k of
        (got, k1) \<Rightarrow>
          (case ino of
             Some s \<Rightarrow>
               if got then (Some \<lparr>inode = s, pos = 0\<rparr>, k1)
               else (None, inode_close k1 ino)
           | None \<Rightarrow> (None, inode_close k1 ino)))"

definition dir_open_root :: "kernel \<Rightarrow> dir option \<times> kernel" where
  "dir_open_root k = (case inode_open k ROOT_DIR_SECTOR of (ino, k1) \<Rightarrow> dir_open k1 ino)"

definition dir_reopen :: "kernel \<Rightarrow> dir \<Rightarrow> dir option \<times> kernel" where
  "dir_reopen k d = (case inode_reopen k (Some (inode d)) of (ino, k1) \<Rightarrow> dir_open k1 ino)"

definition dir_close :: "kernel \<Rightarrow> dir option \<Rightarrow> kernel" where
  "dir_close k dir = (case dir of None \<Rightarrow> k | Some d \<Rightarrow> inode_close k (Some (inode d)))"

definition dir_is_root :: "dir option \<Rightarrow> bool" where
  "dir_is_root dir =
     (case dir of
        None \<Rightarrow> False
      | Some d \<Rightarrow> inode_get_inumber (dir_get_inode d) = ROOT_DIR_SECTOR)"

text \<open>\<^verbatim>\<open>dir_get_parent\<close> opens the inode whose sector is stored as the parent; its result
  is true when the inode it stores is not null.\<close>

definition dir_get_parent :: "kernel \<Rightarrow> dir \<Rightarrow> block_sector_t option \<times> kernel" where
  "dir_get_parent k d = inode_open k (inode_get_parent k (dir_get_inode d))"

text \<open>Modelled from the spec: the tokenizer \<^verbatim>\<open>strtok_r\<close> (lib/string.c is not among the
  sources), called with the delimiter \<^verbatim>\<open>"/"\<close>: on the rest of the string it skips the
  separators, returns no token at the end of the string, and otherwise the token up to
  the next separator and the rest after it.\<close>

definition strtok_r :: "string \<Rightarrow> (string \<times> string) option" where
  "strtok_r s =
     (let s1 = dropWhile (\<lambda>c. c = CHR ''/'') s
      in if s1 = [] then None
         else Some (takeWhile (\<lambda>c. c \<noteq> CHR ''/'') s1,
                    drop 1 (dropWhile (\<lambda>c. c \<noteq> CHR ''/'') s1)))"

text \<open>The tokens that the successive calls of \<^verbatim>\<open>strtok_r\<close> return until it returns a
  null pointer.  Both path functions tokenize a private copy of the path, so which of
  the calls they get to make does not change what each call returns.\<close>

function strtok_all :: "string \<Rightarrow> string list" where
  "strtok_all s =
     (case strtok_r s of
        None \<Rightarrow> []
      | Some (token, rest) \<Rightarrow> token # strtok_all rest)"
  by pat_completeness auto
termination
proof (relation "measure length")
  show "wf (measure length)" by simp
next
  fix s :: string and x2 token rest
  assume a: "strtok_r s = Some x2" "(token, rest) = x2"
  let ?s1 = "dropWhile (\<lambda>c. c = CHR ''/'') s"
  from a have ne: "?s1 \<noteq> []" and rest: "rest = drop 1 (dropWhile (\<lambda>c. c \<noteq> CHR ''/'') ?s1)"
    by (auto simp: strtok_r_def Let_def split: if_splits)
  from ne have "hd ?s1 \<noteq> CHR ''/''"
    using hd_dropWhile [of "\<lambda>c. c = CHR ''/''" s] by simp
  with ne have "length (dropWhile (\<lambda>c. c \<noteq> CHR ''/'') ?s1) < length ?s1"
    by (cases ?s1) (auto simp: less_Suc_eq_le length_dropWhile_le)
  moreover have "length ?s1 \<le> length s"
    by (rule length_dropWhile_le)
  ultimately have "length rest < length s"
    using rest by simp
  then show "(rest, s) \<in> measure length" by simp
qed

text \<open>The loop of \<^verbatim>\<open>get_file_name\<close>: the token is replaced by the next one as long
  as there is a next one.\<close>

fun last_token :: "string \<Rightarrow> string list \<Rightarrow> string" where
  "last_token token [] = token"
| "last_token token (next_token # rest) = last_token next_token rest"

text \<open>\<^verbatim>\<open>get_file_name\<close>.  When the path has no token, \<^verbatim>\<open>token\<close> is a null pointer and
  \<^verbatim>\<open>strlen (token)\<close> reads through it; the result of \<^verbatim>\<open>malloc\<close> is not checked
  before \<^verbatim>\<open>memcpy\<close> writes through it.\<close>

definition get_file_name :: "kernel \<Rightarrow> string \<Rightarrow> kpanic + (string \<times> kernel)" where
  "get_file_name k path =
     (case strtok_all path of
        [] \<Rightarrow> Inl Null_deref
      | token # rest \<Rightarrow>
          (case kalloc k of
             (got, k1) \<Rightarrow>
               if got then Inr (last_token token rest, k1) else Inl Null_deref))"

text \<open>Where \<^verbatim>\<open>get_containing_dir\<close> starts: the root when the path begins with a slash
  or the thread has no working directory, a new handle on the working directory
  otherwise.\<close>

definition start_dir :: "kernel \<Rightarrow> dir option \<Rightarrow> string \<Rightarrow> dir option \<times> kernel" where
  "start_dir k cwd path =
     (case cwd of
        None \<Rightarrow> dir_open_root k
      | Some c \<Rightarrow>
          if path \<noteq> [] \<and> hd path = CHR ''/'' then dir_open_root k else dir_reopen k c)"

text \<open>The inode a component other than \<^verbatim>\<open>.\<close> stands for: the stored parent for
  \<^verbatim>\<open>..\<close>, the entry of that name otherwise.  \<^verbatim>\<open>dir_get_parent\<close> reads through the
  handle and \<^verbatim>\<open>dir_lookup\<close> asserts that it is not null.\<close>

definition open_component ::
  "kernel \<Rightarrow> dir option \<Rightarrow> string \<Rightarrow> kpanic + (block_sector_t option \<times> kernel)" where
  "open_component k dir token =
     (if token = ''..''
      then (case dir of None \<Rightarrow> Inl Null_deref | Some d \<Rightarrow> Inr (dir_get_parent k d))
      else (case dir of None \<Rightarrow> Inl Assert_failed | Some d \<Rightarrow> Inr (dir_lookup k d token)))"

text \<open>One turn of the loop of \<^verbatim>\<open>get_containing_dir\<close>: it returns a null pointer from
  the function (\<open>Abort\<close>) or goes on with a directory handle.\<close>

datatype step_result = Abort | Continue "dir option"

definition containing_dir_step ::
  "kernel \<Rightarrow> dir option \<Rightarrow> string \<Rightarrow> kpanic + (step_result \<times> kernel)" where
  "containing_dir_step k dir token =
     (if token = ''.'' then Inr (Continue dir, k)
      else
        (case open_component k dir token of
           Inl p \<Rightarrow> Inl p
         | Inr (None, k1) \<Rightarrow> Inr (Abort, k1)
         | Inr (Some ino, k1) \<Rightarrow>
             if inode_is_dir k1 ino
             then (case dir_open (dir_close k1 dir) (Some ino) of
                     (dir', k2) \<Rightarrow> Inr (Continue dir', k2))
             else Inr (Continue dir, inode_close k1 (Some ino))))"

text \<open>The loop runs while there is a next token, so the last token is never passed to
  the step.\<close>

fun containing_dir_loop ::
  "kernel \<Rightarrow> dir option \<Rightarrow> string \<Rightarrow> string list \<Rightarrow> kpanic + (dir option \<times> kernel)" where
  "containing_dir_loop k dir token [] = Inr (dir, k)"
| "containing_dir_loop k dir token (next_token # rest) =
     (case containing_dir_step k dir token of
        Inl p \<Rightarrow> Inl p
      | Inr (Abort, k1) \<Rightarrow> Inr (None, k1)
      | Inr (Continue dir', k1) \<Rightarrow> containing_dir_loop k1 dir' next_token rest)"

text \<open>\<^verbatim>\<open>get_containing_dir\<close>.  When the path has no token, \<^verbatim>\<open>next_token\<close> is never
  assigned and the loop condition reads it.  The C language gives that read no meaning, so
  the source does not determine what a compiled kernel does on such a path (it may find a
  null pointer there and return the directory it started from).  The value
  \<open>Uninit_read\<close> marks the case as undefined; no result below is derived from it.\<close>

definition get_containing_dir ::
  "kernel \<Rightarrow> dir option \<Rightarrow> string \<Rightarrow> kpanic + (dir option \<times> kernel)" where
  "get_containing_dir k cwd path =
     (case start_dir k cwd path of
        (dir, k1) \<Rightarrow>
          (case strtok_all path of
             [] \<Rightarrow> Inl Uninit_read
           | token # rest \<Rightarrow> containing_dir_loop k1 dir token rest))"

text \<open>The components of a path as the specification words them: the path is cut at
  every separator and the empty pieces are discarded.\<close>

fun split_on_slash :: "string \<Rightarrow> string list" where
  "split_on_slash [] = [[]]"
| "split_on_slash (c # cs) =
     (if c = CHR ''/'' then [] # split_on_slash cs
      else (case split_on_slash cs of
              [] \<Rightarrow> [[c]]
            | piece # pieces \<Rightarrow> (c # piece) # pieces))"

definition spec_components :: "string \<Rightarrow> string list" where
  "spec_components path = filter (\<lambda>piece. piece \<noteq> []) (split_on_slash path)"

text \<open>Well-formedness of the disk for the way up through \<^verbatim>\<open>..\<close>: the parent link of every
  inode names a sector that holds an inode (the root directory is its own parent).\<close>

definition parents_exist :: "kernel \<Rightarrow> bool" where
  "parents_exist k \<longleftrightarrow> (\<forall>s i. inodes k s = Some i \<longrightarrow> inodes k (parent i) \<noteq> None)"

section \<open>System calls (userprog/syscall.c)\<close>

text \<open>
  Addresses, \<^verbatim>\<open>int\<close> and \<^verbatim>\<open>unsigned\<close> are 32 bits wide.  A value of type \<^verbatim>\<open>int\<close> is
  kept as its 32 bits where the code only adds to it and stores it (arithmetic on
  \<^verbatim>\<open>int\<close> is taken as the machine does it, wrapping around), and read with \<open>sint\<close>
  where it is compared.
\<close>

type_synonym addr = "32 word"

text \<open>Modelled from the spec: the address space of the calling process, as the queries
  that \<^verbatim>\<open>check_valid_address\<close> makes (\<^verbatim>\<open>is_user_vaddr\<close> of threads/vaddr.h and
  \<^verbatim>\<open>pagedir_get_page\<close> of userprog/pagedir.c, not among the sources) and its contents.\<close>

record user_mem =
  is_user_vaddr :: "addr \<Rightarrow> bool"
  page_mapped :: "addr \<Rightarrow> bool"
  word_at :: "addr \<Rightarrow> 32 word"
  byte_at :: "addr \<Rightarrow> 8 word"

text \<open>A system call ends with the process terminated by \<^verbatim>\<open>exit (status)\<close>, which does
  not return, or with a value for the caller (stored in \<^verbatim>\<open>f->eax\<close>).\<close>

datatype sys_result = Exited int | Returned "32 word"

text \<open>\<^verbatim>\<open>check_valid_address\<close> returns when the address is valid and calls
  \<^verbatim>\<open>exit (-1)\<close> otherwise; the model gives the test.\<close>

definition check_valid_address :: "user_mem \<Rightarrow> addr \<Rightarrow> bool" where
  "check_valid_address um a \<longleftrightarrow> a \<noteq> 0 \<and> is_user_vaddr um a \<and> page_mapped um a"

text \<open>Modelled from the spec: the entries of the descriptor table.  \<^verbatim>\<open>struct file\<close>
  (filesys/file.c) and \<^verbatim>\<open>struct file_elem\<close> (threads/thread.h) are declared outside the
  sources; \<^verbatim>\<open>open\<close> fills \<^verbatim>\<open>fe->dir\<close> for a directory and \<^verbatim>\<open>fe->file\<close> for a plain
  file.  (\<open>file\<close> is reserved in Isabelle, hence \<open>file_t\<close>.)\<close>

record file_t =
  file_inode :: block_sector_t
  file_pos :: nat

definition file_get_inode :: "file_t \<Rightarrow> block_sector_t" where
  "file_get_inode f = file_inode f"

record file_elem =
  fd :: int
  isdir :: bool
  fe_dir :: dir
  fe_file :: file_t

text \<open>\<^verbatim>\<open>find_file_elem\<close>: the first element of the thread's list with the descriptor.\<close>

fun find_file_elem :: "file_elem list \<Rightarrow> int \<Rightarrow> file_elem option" where
  "find_file_elem [] n = None"
| "find_file_elem (fe # fes) n = (if fd fe = n then Some fe else find_file_elem fes n)"

text \<open>A store through the pointer that \<^verbatim>\<open>find_file_elem\<close> returned, into the
  directory handle of the element.\<close>

fun store_dir :: "file_elem list \<Rightarrow> int \<Rightarrow> dir \<Rightarrow> file_elem list" where
  "store_dir [] n d = []"
| "store_dir (fe # fes) n d =
     (if fd fe = n then fe\<lparr>fe_dir := d\<rparr> # fes else fe # store_dir fes n d)"

text \<open>Modelled from the spec: the console sink \<^verbatim>\<open>putbuf (buffer, n)\<close>
  (lib/kernel/console.c is not among the sources): one transfer to the console of the
  \<open>n\<close> bytes at \<open>buffer\<close>.\<close>

definition putbuf :: "user_mem \<Rightarrow> addr \<Rightarrow> nat \<Rightarrow> 8 word list" where
  "putbuf um buffer n = map (\<lambda>i. byte_at um (buffer + of_nat i)) [0..<n]"

text \<open>The loop of the console branch of \<^verbatim>\<open>write\<close>, on \<^verbatim>\<open>length\<close>, \<^verbatim>\<open>written\<close> and
  the transfers made so far.\<close>

function write_loop ::
  "user_mem \<Rightarrow> addr \<Rightarrow> 32 word \<Rightarrow> 32 word \<Rightarrow> 8 word list list \<Rightarrow>
     32 word \<times> 32 word \<times> 8 word list list" where
  "write_loop um buffer len written out =
     (if 512 < len
      then write_loop um buffer (len - 512) (written + 512)
             (out @ [putbuf um (buffer + written) 512])
      else (len, written, out))"
  by pat_completeness auto
termination
proof (relation "measure (\<lambda>(um, buffer, len, written, out). unat len)")
  show "wf (measure (\<lambda>(um, buffer, len, written, out). unat len))" by simp
next
  fix um :: user_mem and buffer len written :: "32 word" and out :: "8 word list list"
  assume "512 < len"
  then have "unat (len - 512) < unat len"
    by (simp add: unat_sub word_less_nat_alt word_le_nat_alt)
  then show "((um, buffer, len - 512, written + 512, out @ [putbuf um (buffer + written) 512]),
              (um, buffer, len, written, out))
             \<in> measure (\<lambda>(um, buffer, len, written, out). unat len)"
    by simp
qed

text \<open>\<^verbatim>\<open>write\<close> (the name is reserved in Isabelle).  The result is the outcome for the
  process and the transfers made to the console.  \<^verbatim>\<open>file_write\<close> (filesys/file.c) is
  outside the sources: \<open>fw\<close> gives what it reports.  The lock is not modelled.\<close>

definition sys_write ::
  "user_mem \<Rightarrow> file_elem list \<Rightarrow> (file_t \<Rightarrow> addr \<Rightarrow> 32 word \<Rightarrow> 32 word) \<Rightarrow>
     int \<Rightarrow> addr \<Rightarrow> 32 word \<Rightarrow> sys_result \<times> 8 word list list" where
  "sys_write um files fw n buffer len =
     (if n = 0 then (Exited (- 1), [])
      else if n = 1 then
        (if len < 512 then (Returned len, [putbuf um buffer (unat len)])
         else
           (case write_loop um buffer len 0 [] of
              (len', written, out) \<Rightarrow>
                (Returned (written + len'),
                 out @ [putbuf um (buffer + written) (unat len')])))
      else
        (case find_file_elem files n of
           None \<Rightarrow> (Exited (- 1), [])
         | Some fe \<Rightarrow> (Returned (fw (fe_file fe) buffer len), [])))"

text \<open>\<^verbatim>\<open>readdir\<close>: the result, the name stored for the caller, and the list with the
  moved cursor.\<close>

definition readdir ::
  "kernel \<Rightarrow> file_elem list \<Rightarrow> int \<Rightarrow> bool \<times> string option \<times> file_elem list" where
  "readdir k files n =
     (case find_file_elem files n of
        None \<Rightarrow> (False, None, files)
      | Some fe \<Rightarrow>
          if \<not> isdir fe then (False, None, files)
          else
            (case dir_readdir k (fe_dir fe) of
               (None, d') \<Rightarrow> (False, None, store_dir files n d')
             | (Some nm, d') \<Rightarrow> (True, Some nm, store_dir files n d')))"

text \<open>\<^verbatim>\<open>isdir\<close>, the system call (\<open>isdir\<close> is the field of the element).\<close>

definition isdir_call :: "file_elem list \<Rightarrow> int \<Rightarrow> bool" where
  "isdir_call files n = (case find_file_elem files n of None \<Rightarrow> False | Some fe \<Rightarrow> isdir fe)"

text \<open>\<^verbatim>\<open>inumber\<close> is declared \<^verbatim>\<open>bool inumber (int)\<close>: the sector number it returns is
  converted to \<^verbatim>\<open>bool\<close>, which is true for every number but 0.\<close>

definition inumber :: "file_elem list \<Rightarrow> int \<Rightarrow> bool" where
  "inumber files n =
     (case find_file_elem files n of
        None \<Rightarrow> False
      | Some fe \<Rightarrow>
          (if isdir fe then inode_get_inumber (dir_get_inode (fe_dir fe))
           else inode_get_inumber (file_get_inode (fe_file fe))) \<noteq> 0)"

text \<open>\<^verbatim>\<open>filesize\<close>; \<^verbatim>\<open>file_length\<close> (filesys/file.c) is outside the sources: \<open>fl\<close>
  gives what it reports.\<close>

definition filesize :: "file_elem list \<Rightarrow> (file_t \<Rightarrow> 32 word) \<Rightarrow> int \<Rightarrow> sys_result" where
  "filesize files fl n =
     (case find_file_elem files n of
        None \<Rightarrow> Exited (- 1)
      | Some fe \<Rightarrow> Returned (fl (fe_file fe)))"

text \<open>The arms of the switch of \<^verbatim>\<open>syscall_handler\<close> for \<^verbatim>\<open>SYS_FILESIZE\<close>,
  \<^verbatim>\<open>SYS_WRITE\<close>, \<^verbatim>\<open>SYS_READDIR\<close>, \<^verbatim>\<open>SYS_ISDIR\<close> and \<^verbatim>\<open>SYS_INUMBER\<close>, each with the
  check of \<^verbatim>\<open>esp\<close> that precedes the switch.  \<^verbatim>\<open>esp\<close> points to \<^verbatim>\<open>int\<close>, so
  \<^verbatim>\<open>esp+1\<close> is the address \<open>esp + 4\<close>, and \<^verbatim>\<open>*(esp+1)\<close> the word stored there.  The arms
  of readdir, isdir and inumber pass \<^verbatim>\<open>(int *)(esp+1)\<close>, the address, where the
  function takes an \<^verbatim>\<open>int\<close>.\<close>

definition syscall_filesize ::
  "user_mem \<Rightarrow> file_elem list \<Rightarrow> (file_t \<Rightarrow> 32 word) \<Rightarrow> addr \<Rightarrow> sys_result" where
  "syscall_filesize um files fl esp =
     (if \<not> check_valid_address um esp then Exited (- 1)
      else if \<not> check_valid_address um (esp + 4) then Exited (- 1)
      else filesize files fl (sint (word_at um (esp + 4))))"

definition syscall_write ::
  "user_mem \<Rightarrow> file_elem list \<Rightarrow> (file_t \<Rightarrow> addr \<Rightarrow> 32 word \<Rightarrow> 32 word) \<Rightarrow> addr \<Rightarrow>
     sys_result \<times> 8 word list list" where
  "syscall_write um files fw esp =
     (if \<not> check_valid_address um esp then (Exited (- 1), [])
      else if \<not> check_valid_address um (esp + 4) then (Exited (- 1), [])
      else if \<not> check_valid_address um (word_at um (esp + 8)) then (Exited (- 1), [])
      else if \<not> check_valid_address um (esp + 12) then (Exited (- 1), [])
      else sys_write um files fw (sint (word_at um (esp + 4))) (word_at um (esp + 8))
             (word_at um (esp + 12)))"

definition syscall_readdir ::
  "user_mem \<Rightarrow> kernel \<Rightarrow> file_elem list \<Rightarrow> addr \<Rightarrow>
     sys_result \<times> string option \<times> file_elem list" where
  "syscall_readdir um k files esp =
     (if \<not> check_valid_address um esp then (Exited (- 1), None, files)
      else if \<not> check_valid_address um (esp + 4) then (Exited (- 1), None, files)
      else if \<not> check_valid_address um (word_at um (esp + 8)) then (Exited (- 1), None, files)
      else
        (case readdir k files (sint (esp + 4)) of
           (ret, nm, files') \<Rightarrow> (Returned (of_bool ret), nm, files')))"

definition syscall_isdir :: "user_mem \<Rightarrow> file_elem list \<Rightarrow> addr \<Rightarrow> sys_result" where
  "syscall_isdir um files esp =
     (if \<not> check_valid_address um esp then Exited (- 1)
      else if \<not> check_valid_address um (esp + 4) then Exited (- 1)
      else Returned (of_bool (isdir_call files (sint (esp + 4)))))"

definition syscall_inumber :: "user_mem \<Rightarrow> file_elem list \<Rightarrow> addr \<Rightarrow> sys_result" where
  "syscall_inumber um files esp =
     (if \<not> check_valid_address um esp then Exited (- 1)
      else if \<not> check_valid_address um (esp + 4) then Exited (- 1)
      else Returned (of_bool (inumber files (sint (esp + 4)))))"

section \<open>Sequences of table operations\<close>

text \<open>Well-formedness of the disk: the inode in the root sector, when there is one, is a
  directory.\<close>

definition root_is_directory :: "kernel \<Rightarrow> bool" where
  "root_is_directory k \<longleftrightarrow>
     (case inodes k ROOT_DIR_SECTOR of None \<Rightarrow> True | Some i \<Rightarrow> is_dir i)"

text \<open>The invariant of the data model: within one table no two records in use carry
  the same name.\<close>

definition names_unique :: "dir_entry list \<Rightarrow> bool" where
  "names_unique t = distinct (map name (filter in_use t))"

text \<open>The operations that change a table, each with the outcomes of the collaborator
  it meets.  A state is reachable when a sequence of them leads to it from a disk
  without inodes.\<close>

datatype table_op =
    Create block_sector_t nat bool
  | Add dir string block_sector_t bool bool
  | Remove dir string bool

fun apply_op :: "kernel \<Rightarrow> table_op \<Rightarrow> kernel" where
  "apply_op k (Create s n ok) = snd (dir_create ok k s n)"
| "apply_op k (Add d nm sec link_ok wr_ok) = snd (dir_add link_ok wr_ok k d nm sec)"
| "apply_op k (Remove d nm wr_ok) = snd (dir_remove wr_ok k d nm)"

definition run_ops :: "kernel \<Rightarrow> table_op list \<Rightarrow> kernel" where
  "run_ops k ops = foldl apply_op k ops"

text \<open>\<open>not_removed s nm k ops\<close>: run from \<open>k\<close>, no operation of \<open>ops\<close> is a
  \<^verbatim>\<open>dir_remove\<close> of \<open>nm\<close> on the directory in sector \<open>s\<close> that succeeds, and the
  sector is not given to a new directory.\<close>

fun not_removed :: "block_sector_t \<Rightarrow> string \<Rightarrow> kernel \<Rightarrow> table_op list \<Rightarrow> bool" where
  "not_removed s nm k [] = True"
| "not_removed s nm k (Create s' n ok # ops) =
     (s' \<noteq> s \<and> not_removed s nm (apply_op k (Create s' n ok)) ops)"
| "not_removed s nm k (Add d n sec link_ok wr_ok # ops) =
     not_removed s nm (apply_op k (Add d n sec link_ok wr_ok)) ops"
| "not_removed s nm k (Remove d n wr_ok # ops) =
     (\<not> (inode d = s \<and> n = nm \<and> fst (dir_remove wr_ok k d n)) \<and>
      not_removed s nm (apply_op k (Remove d n wr_ok)) ops)"

section \<open>An example file system\<close>

text \<open>The root directory (sector 1) holds the directory \<open>a\<close> (sector 2), a free slot and
  the plain file \<open>f\<close> (sector 3); \<open>a\<close> holds the directories \<open>b\<close> (sector 4) and
  \<open>e\<close> (sector 5, empty); \<open>b\<close> holds an entry \<open>r\<close> for the root's own sector.  The
  root is open once.\<close>

definition ex_inodes :: "block_sector_t \<Rightarrow> inode_t option" where
  "ex_inodes =
     (\<lambda>s. None)
      (1 \<mapsto> \<lparr>is_dir = True, parent = 1, open_cnt = 1, removed = False,
              data = [\<lparr>inode_sector = 2, name = ''a'', in_use = True\<rparr>,
                      \<lparr>inode_sector = 0, name = [], in_use = False\<rparr>,
                      \<lparr>inode_sector = 3, name = ''f'', in_use = True\<rparr>]\<rparr>,
       2 \<mapsto> \<lparr>is_dir = True, parent = 1, open_cnt = 0, removed = False,
              data = [\<lparr>inode_sector = 4, name = ''b'', in_use = True\<rparr>,
                      \<lparr>inode_sector = 5, name = ''e'', in_use = True\<rparr>]\<rparr>,
       3 \<mapsto> \<lparr>is_dir = False, parent = 1, open_cnt = 0, removed = False, data = []\<rparr>,
       4 \<mapsto> \<lparr>is_dir = True, parent = 2, open_cnt = 0, removed = False,
              data = [\<lparr>inode_sector = 1, name = ''r'', in_use = True\<rparr>]\<rparr>,
       5 \<mapsto> \<lparr>is_dir = True, parent = 2, open_cnt = 0, removed = False,
              data = [\<lparr>inode_sector = 0, name = [], in_use = False\<rparr>]\<rparr>)"

definition ex_kernel :: kernel where
  "ex_kernel = \<lparr>inodes = ex_inodes, alloc_ok = (\<lambda>n. True), alloc_cnt = 0\<rparr>"

definition ex_dir :: "block_sector_t \<Rightarrow> dir" where
  "ex_dir s = \<lparr>inode = s, pos = 0\<rparr>"

definition empty_disk :: kernel where
  "empty_disk = \<lparr>inodes = Map.empty, alloc_ok = (\<lambda>n. True), alloc_cnt = 0\<rparr>"

definition ex_ops :: "table_op list" where
  "ex_ops =
     [Create 1 2 True, Add (ex_dir 1) ''a'' 2 True True, Add (ex_dir 1) ''a'' 3 True True,
      Remove (ex_dir 1) ''a'' True, Add (ex_dir 1) ''b'' 4 True True]"

definition ex_ops2 :: "table_op list" where
  "ex_ops2 = [Remove (ex_dir 1) ''f'' True, Add (ex_dir 1) ''d'' 7 True True]"

definition ex_mem :: user_mem where
  "ex_mem =
     \<lparr>is_user_vaddr = (\<lambda>a. a < 0xC0000000),
      page_mapped = (\<lambda>a. True),
      word_at = (\<lambda>a. 0)(0xBFFFFF04 := 3, 0xBFFFFF08 := 0xBFFFFF80),
      byte_at = (\<lambda>a. ucast a)\<rparr>"

definition ex_esp :: addr where
  "ex_esp = 0xBFFFFF00"

definition ex_files :: "file_elem list" where
  "ex_files =
     [\<lparr>fd = 3, isdir = True, fe_dir = \<lparr>inode = 2, pos = 0\<rparr>,
       fe_file = \<lparr>file_inode = 2, file_pos = 0\<rparr>\<rparr>,
      \<lparr>fd = 4, isdir = False, fe_dir = \<lparr>inode = 3, pos = 0\<rparr>,
       fe_file = \<lparr>file_inode = 3, file_pos = 0\<rparr>\<rparr>]"

section \<open>Facts about the scans\<close>

lemma inode_read_at_Some:
  "inode_read_at k s ofs = Some e \<longleftrightarrow> ofs < length (table k s) \<and> e = table k s ! ofs"
  by (auto simp: inode_read_at_def table_def split: option.splits)

lemma inode_read_at_None:
  "inode_read_at k s ofs = None \<longleftrightarrow> length (table k s) \<le> ofs"
  by (auto simp: inode_read_at_def table_def split: option.splits)

declare lookup_from.simps [simp del] free_slot_from.simps [simp del]
  dir_is_empty_from.simps [simp del] dir_readdir.simps [simp del]

lemma lookup_from_None:
  "lookup_from k s nm ofs = None \<longleftrightarrow>
     (\<forall>j. ofs \<le> j \<and> j < length (table k s) \<longrightarrow>
          \<not> (in_use (table k s ! j) \<and> nm = name (table k s ! j)))"
proof (induction k s nm ofs rule: lookup_from.induct)
  case (1 k s nm ofs)
  show ?case
  proof (cases "ofs < length (table k s)")
    case False
    then have "inode_read_at k s ofs = None"
      by (simp add: inode_read_at_None)
    with False show ?thesis
      by (subst lookup_from.simps) auto
  next
    case True
    then have rd: "inode_read_at k s ofs = Some (table k s ! ofs)"
      by (simp add: inode_read_at_Some)
    show ?thesis
    proof (cases "in_use (table k s ! ofs) \<and> nm = name (table k s ! ofs)")
      case hit: True
      with True rd show ?thesis
        by (subst lookup_from.simps) auto
    next
      case miss: False
      have "lookup_from k s nm ofs = lookup_from k s nm (Suc ofs)"
        using rd miss by (subst lookup_from.simps) auto
      also have "\<dots> = None \<longleftrightarrow>
        (\<forall>j. Suc ofs \<le> j \<and> j < length (table k s) \<longrightarrow>
          \<not> (in_use (table k s ! j) \<and> nm = name (table k s ! j)))"
        using "1.IH" [OF rd] miss by blast
      also have "\<dots> \<longleftrightarrow> (\<forall>j. ofs \<le> j \<and> j < length (table k s) \<longrightarrow>
          \<not> (in_use (table k s ! j) \<and> nm = name (table k s ! j)))"
        using miss by (metis Suc_leD Suc_leI le_neq_implies_less)
      finally show ?thesis .
    qed
  qed
qed

lemma lookup_from_Some:
  "lookup_from k s nm ofs = Some (e, i) \<longleftrightarrow>
     ofs \<le> i \<and> i < length (table k s) \<and> e = table k s ! i \<and> in_use e \<and> nm = name e \<and>
     (\<forall>j. ofs \<le> j \<and> j < i \<longrightarrow> \<not> (in_use (table k s ! j) \<and> nm = name (table k s ! j)))"
proof (induction k s nm ofs rule: lookup_from.induct)
  case (1 k s nm ofs)
  show ?case
  proof (cases "ofs < length (table k s)")
    case False
    then have "inode_read_at k s ofs = None"
      by (simp add: inode_read_at_None)
    with False show ?thesis
      by (subst lookup_from.simps) auto
  next
    case True
    then have rd: "inode_read_at k s ofs = Some (table k s ! ofs)"
      by (simp add: inode_read_at_Some)
    show ?thesis
    proof (cases "in_use (table k s ! ofs) \<and> nm = name (table k s ! ofs)")
      case hit: True
      have "lookup_from k s nm ofs = Some (table k s ! ofs, ofs)"
        using rd hit by (subst lookup_from.simps) auto
      with True hit show ?thesis
        by (auto simp: not_less) (metis le_neq_implies_less le_refl)+
    next
      case miss: False
      have eq: "lookup_from k s nm ofs = lookup_from k s nm (Suc ofs)"
        using rd miss by (subst lookup_from.simps) auto
      have ih: "lookup_from k s nm (Suc ofs) = Some (e, i) \<longleftrightarrow>
         Suc ofs \<le> i \<and> i < length (table k s) \<and> e = table k s ! i \<and> in_use e \<and> nm = name e \<and>
         (\<forall>j. Suc ofs \<le> j \<and> j < i \<longrightarrow> \<not> (in_use (table k s ! j) \<and> nm = name (table k s ! j)))"
        using "1.IH" [OF rd] miss by blast
      show ?thesis
        unfolding eq ih using miss
        by (metis Suc_leD Suc_leI le_neq_implies_less)
    qed
  qed
qed


lemma free_slot_from_unfold:
  "free_slot_from k s ofs =
     (if ofs < length (table k s) \<and> in_use (table k s ! ofs)
      then free_slot_from k s (Suc ofs) else ofs)"
  by (subst free_slot_from.simps)
     (auto simp: inode_read_at_def table_def split: option.splits)

lemma dir_is_empty_from_unfold:
  "dir_is_empty_from k s p =
     (if p < length (table k s)
      then \<not> in_use (table k s ! p) \<and> dir_is_empty_from k s (Suc p) else True)"
  by (subst dir_is_empty_from.simps)
     (auto simp: inode_read_at_def table_def split: option.splits)

lemma dir_is_empty_from_iff:
  "dir_is_empty_from k s p \<longleftrightarrow>
     (\<forall>j. p \<le> j \<and> j < length (table k s) \<longrightarrow> \<not> in_use (table k s ! j))"
proof (induction k s p rule: dir_is_empty_from.induct)
  case (1 k s p)
  show ?case
  proof (cases "p < length (table k s)")
    case False
    then show ?thesis
      by (subst dir_is_empty_from_unfold) auto
  next
    case True
    then have rd: "inode_read_at k s p = Some (table k s ! p)"
      by (simp add: inode_read_at_Some)
    show ?thesis
    proof (cases "in_use (table k s ! p)")
      case used: True
      with True show ?thesis
        by (subst dir_is_empty_from_unfold) auto
    next
      case free: False
      have "dir_is_empty_from k s p = dir_is_empty_from k s (Suc p)"
        using True free by (subst dir_is_empty_from_unfold) simp
      also have "\<dots> \<longleftrightarrow> (\<forall>j. Suc p \<le> j \<and> j < length (table k s) \<longrightarrow> \<not> in_use (table k s ! j))"
        using "1.IH" [OF rd] free by simp
      also have "\<dots> \<longleftrightarrow> (\<forall>j. p \<le> j \<and> j < length (table k s) \<longrightarrow> \<not> in_use (table k s ! j))"
        using free by (metis Suc_leD Suc_leI le_neq_implies_less)
      finally show ?thesis .
    qed
  qed
qed

lemma dir_is_empty_iff:
  "dir_is_empty k s \<longleftrightarrow> (\<forall>e \<in> set (table k s). \<not> in_use e)"
  unfolding dir_is_empty_def dir_is_empty_from_iff
  by (metis in_set_conv_nth le0)


lemma free_slot_from_takeWhile:
  "ofs \<le> length (table k s) \<Longrightarrow>
   free_slot_from k s ofs = ofs + length (takeWhile in_use (drop ofs (table k s)))"
proof (induction k s ofs rule: free_slot_from.induct)
  case (1 k s ofs)
  show ?case
  proof (cases "ofs < length (table k s)")
    case False
    with "1.prems" show ?thesis
      by (subst free_slot_from_unfold) simp
  next
    case True
    then have rd: "inode_read_at k s ofs = Some (table k s ! ofs)"
      by (simp add: inode_read_at_Some)
    have dr: "drop ofs (table k s) = table k s ! ofs # drop (Suc ofs) (table k s)"
      using True by (simp add: Cons_nth_drop_Suc)
    show ?thesis
    proof (cases "in_use (table k s ! ofs)")
      case False
      with True dr show ?thesis
        by (subst free_slot_from_unfold) simp
    next
      case used: True
      have "free_slot_from k s (Suc ofs) =
            Suc ofs + length (takeWhile in_use (drop (Suc ofs) (table k s)))"
        using "1.IH" [OF rd] used True by simp
      with True used dr show ?thesis
        by (subst free_slot_from_unfold) simp
    qed
  qed
qed

lemma free_slot_0:
  "free_slot_from k s 0 = length (takeWhile in_use (table k s))"
  by (simp add: free_slot_from_takeWhile)

lemma dir_readdir_unfold:
  "dir_readdir k d =
     (if pos d < length (table k (inode d))
      then (if in_use (table k (inode d) ! pos d)
            then (Some (strlcpy (name (table k (inode d) ! pos d)) (NAME_MAX + 1)),
                  d\<lparr>pos := Suc (pos d)\<rparr>)
            else dir_readdir k (d\<lparr>pos := Suc (pos d)\<rparr>))
      else (None, d))"
  by (subst dir_readdir.simps)
     (auto simp: inode_read_at_def table_def Let_def split: option.splits)

lemma dir_readdir_spec:
  "dir_readdir k d = (r, d') \<Longrightarrow>
     inode d' = inode d \<and>
     (case r of
        None \<Rightarrow>
          (\<forall>j. pos d \<le> j \<and> j < length (table k (inode d)) \<longrightarrow> \<not> in_use (table k (inode d) ! j)) \<and>
          pos d' = max (pos d) (length (table k (inode d)))
      | Some nm \<Rightarrow>
          (\<exists>j. pos d \<le> j \<and> j < length (table k (inode d)) \<and> in_use (table k (inode d) ! j) \<and>
               (\<forall>i. pos d \<le> i \<and> i < j \<longrightarrow> \<not> in_use (table k (inode d) ! i)) \<and>
               nm = strlcpy (name (table k (inode d) ! j)) (NAME_MAX + 1) \<and> pos d' = Suc j))"
proof (induction k d arbitrary: r d' rule: dir_readdir.induct)
  case (1 k d)
  let ?t = "table k (inode d)"
  show ?case
  proof (cases "pos d < length ?t")
    case False
    with "1.prems" have "r = None" "d' = d"
      by (simp_all add: dir_readdir_unfold)
    with False show ?thesis by (auto simp: max_def)
  next
    case True
    then have rd: "inode_read_at k (inode d) (pos d) = Some (?t ! pos d)"
      by (simp add: inode_read_at_Some)
    show ?thesis
    proof (cases "in_use (?t ! pos d)")
      case used: True
      with True "1.prems" have "r = Some (strlcpy (name (?t ! pos d)) (NAME_MAX + 1))"
        and "d' = d\<lparr>pos := Suc (pos d)\<rparr>"
        by (simp_all add: dir_readdir_unfold)
      with True used show ?thesis by auto
    next
      case free: False
      let ?d1 = "d\<lparr>pos := Suc (pos d)\<rparr>"
      from True free "1.prems" have rec: "dir_readdir k ?d1 = (r, d')"
        by (simp add: dir_readdir_unfold)
      have ih: "inode d' = inode ?d1 \<and>
        (case r of
           None \<Rightarrow>
             (\<forall>j. pos ?d1 \<le> j \<and> j < length (table k (inode ?d1)) \<longrightarrow>
                  \<not> in_use (table k (inode ?d1) ! j)) \<and>
             pos d' = max (pos ?d1) (length (table k (inode ?d1)))
         | Some nm \<Rightarrow>
             (\<exists>j. pos ?d1 \<le> j \<and> j < length (table k (inode ?d1)) \<and>
                  in_use (table k (inode ?d1) ! j) \<and>
                  (\<forall>i. pos ?d1 \<le> i \<and> i < j \<longrightarrow> \<not> in_use (table k (inode ?d1) ! i)) \<and>
                  nm = strlcpy (name (table k (inode ?d1) ! j)) (NAME_MAX + 1) \<and> pos d' = Suc j))"
        using "1.IH" [OF rd refl _ rec] free by simp
      have step: "(\<forall>i. Suc (pos d) \<le> i \<and> i < j \<longrightarrow> \<not> in_use (?t ! i)) \<longleftrightarrow>
                  (\<forall>i. pos d \<le> i \<and> i < j \<longrightarrow> \<not> in_use (?t ! i))" for j
        using free by (metis Suc_leD Suc_leI le_neq_implies_less)
      show ?thesis
      proof (cases r)
        case None
        with ih True step [of "length ?t"] show ?thesis
          by (auto simp: max_def)
      next
        case (Some nm)
        with ih obtain j where j: "Suc (pos d) \<le> j" "j < length ?t" "in_use (?t ! j)"
          "\<forall>i. Suc (pos d) \<le> i \<and> i < j \<longrightarrow> \<not> in_use (?t ! i)"
          "nm = strlcpy (name (?t ! j)) (NAME_MAX + 1)" "pos d' = Suc j"
          by auto
        from j(4) step [of j] have "\<forall>i. pos d \<le> i \<and> i < j \<longrightarrow> \<not> in_use (?t ! i)"
          by blast
        with j Some ih show ?thesis
          by (auto intro!: exI [of _ j])
      qed
    qed
  qed
qed

section \<open>Facts about dir\_add and dir\_remove\<close>

lemma table_inode_open [simp]: "table (snd (inode_open k s)) x = table k x"
  by (simp add: inode_open_def table_def split: option.splits)

lemma table_inode_close [simp]: "table (inode_close k h) x = table k x"
  by (simp add: inode_close_def table_def split: option.splits)

lemma table_inode_remove [simp]: "table (inode_remove k s) x = table k x"
  by (simp add: inode_remove_def table_def split: option.splits)

lemma table_inode_add_parent [simp]:
  "table (snd (inode_add_parent link_ok k p c)) x = table k x"
  by (simp add: inode_add_parent_def table_def split: option.splits)

lemma fst_inode_add_parent [simp]: "fst (inode_add_parent link_ok k p c) = link_ok"
  by (simp add: inode_add_parent_def split: option.splits)

lemma inode_write_at_False:
  "inode_write_at wr_ok k s e ofs = (False, k') \<Longrightarrow> k' = k"
  by (auto simp: inode_write_at_def split: option.splits if_splits)

lemma inode_write_at_True:
  assumes "inode_write_at wr_ok k s e ofs = (True, k')"
  shows "wr_ok" and "ofs \<le> length (table k s)" and "inodes k s \<noteq> None"
    and "table k' s = (if ofs < length (table k s) then (table k s)[ofs := e] else table k s @ [e])"
    and "x \<noteq> s \<Longrightarrow> table k' x = table k x"
  using assms
  by (auto simp: inode_write_at_def table_def split: option.splits if_splits)


lemma strlcpy_short: "length nm \<le> n \<Longrightarrow> strlcpy nm (Suc n) = nm"
  by (simp add: strlcpy_def)

lemma dir_add_False:
  assumes "dir_add link_ok wr_ok k d nm sec = (False, k')"
  shows "table k' x = table k x"
proof -
  obtain b k1 where lk: "inode_add_parent link_ok k (inode_get_inumber (dir_get_inode d)) sec = (b, k1)"
    by (cases "inode_add_parent link_ok k (inode_get_inumber (dir_get_inode d)) sec")
  then have t1: "table k1 x = table k x"
    using table_inode_add_parent [of link_ok k "inode_get_inumber (dir_get_inode d)" sec x]
    by simp
  show ?thesis
  proof (cases "nm = [] \<or> NAME_MAX < length nm \<or> lookup k d nm \<noteq> None")
    case True
    with assms show ?thesis
      by (auto simp: dir_add_def split: if_splits)
  next
    case False
    show ?thesis
    proof (cases b)
      case False
      with \<open>\<not> (nm = [] \<or> NAME_MAX < length nm \<or> lookup k d nm \<noteq> None)\<close> lk assms t1
      show ?thesis
        by (auto simp: dir_add_def)
    next
      case True
      with False lk assms have
        "inode_write_at wr_ok k1 (inode d)
           \<lparr>inode_sector = sec, name = strlcpy nm (NAME_MAX + 1), in_use = True\<rparr>
           (free_slot_from k1 (inode d) 0) = (False, k')"
        by (auto simp: dir_add_def Let_def)
      then have "k' = k1" by (rule inode_write_at_False)
      with t1 show ?thesis by simp
    qed
  qed
qed

lemma dir_add_True:
  assumes "dir_add link_ok wr_ok k d nm sec = (True, k')"
  shows "nm \<noteq> []" and "length nm \<le> NAME_MAX" and "lookup k d nm = None"
    and "link_ok" and "wr_ok"
    and "table k' (inode d) =
          (if length (takeWhile in_use (table k (inode d))) < length (table k (inode d))
           then (table k (inode d))[length (takeWhile in_use (table k (inode d))) :=
                  \<lparr>inode_sector = sec, name = nm, in_use = True\<rparr>]
           else table k (inode d) @ [\<lparr>inode_sector = sec, name = nm, in_use = True\<rparr>])"
    and "x \<noteq> inode d \<Longrightarrow> table k' x = table k x"
proof -
  from assms show g: "nm \<noteq> []" "length nm \<le> NAME_MAX" "lookup k d nm = None"
    by (cases "lookup k d nm"; simp add: dir_add_def split: if_splits)+
  obtain b k1 where lk: "inode_add_parent link_ok k (inode_get_inumber (dir_get_inode d)) sec = (b, k1)"
    by (cases "inode_add_parent link_ok k (inode_get_inumber (dir_get_inode d)) sec")
  then have t1: "\<And>y. table k1 y = table k y"
    using table_inode_add_parent [of link_ok k "inode_get_inumber (dir_get_inode d)" sec]
    by simp
  from lk have b: "b = link_ok"
    using fst_inode_add_parent [of link_ok k "inode_get_inumber (dir_get_inode d)" sec]
    by simp
  from assms g lk have "b"
    by (cases b) (auto simp: dir_add_def)
  with b show "link_ok" by simp
  from assms g lk \<open>b\<close> have wr:
    "inode_write_at wr_ok k1 (inode d)
       \<lparr>inode_sector = sec, name = nm, in_use = True\<rparr>
       (free_slot_from k1 (inode d) 0) = (True, k')"
    by (auto simp: dir_add_def Let_def strlcpy_short)
  from inode_write_at_True(1) [OF wr] show "wr_ok" .
  have fs: "free_slot_from k1 (inode d) 0 = length (takeWhile in_use (table k (inode d)))"
    by (simp add: free_slot_0 t1)
  from inode_write_at_True(4) [OF wr]
  show "table k' (inode d) =
          (if length (takeWhile in_use (table k (inode d))) < length (table k (inode d))
           then (table k (inode d))[length (takeWhile in_use (table k (inode d))) :=
                  \<lparr>inode_sector = sec, name = nm, in_use = True\<rparr>]
           else table k (inode d) @ [\<lparr>inode_sector = sec, name = nm, in_use = True\<rparr>])"
    by (simp add: fs t1)
  show "table k' x = table k x" if "x \<noteq> inode d"
    using inode_write_at_True(5) [OF wr that] t1 by simp
qed

lemma takeWhile_first_free:
  assumes "length (takeWhile in_use t) < length t"
  shows "\<not> in_use (t ! length (takeWhile in_use t))"
    and "\<forall>j < length (takeWhile in_use t). in_use (t ! j)"
proof -
  from assms show "\<not> in_use (t ! length (takeWhile in_use t))"
    by (rule nth_length_takeWhile)
  show "\<forall>j < length (takeWhile in_use t). in_use (t ! j)"
  proof (intro allI impI)
    fix j assume j: "j < length (takeWhile in_use t)"
    then have "takeWhile in_use t ! j \<in> set (takeWhile in_use t)"
      by (rule nth_mem)
    then have "in_use (takeWhile in_use t ! j)"
      by (rule set_takeWhileD [THEN conjunct2])
    with j show "in_use (t ! j)"
      by (simp add: takeWhile_nth)
  qed
qed



lemmas ex_defs = ex_kernel_def ex_inodes_def ex_dir_def

lemmas eval_defs =
  lookup_def lookup_from.simps free_slot_from.simps dir_is_empty_def dir_is_empty_from.simps
  inode_read_at_def inode_write_at_def inode_add_parent_def inode_open_def inode_close_def
  inode_remove_def inode_is_dir_def inode_get_open_cnt_def inode_get_inumber_def
  inode_get_parent_def dir_get_inode_def table_def strlcpy_def NAME_MAX_def ROOT_DIR_SECTOR_def

lemma dir_remove_False:
  assumes "dir_remove wr_ok k d nm = (False, k')"
  shows "table k' x = table k x"
proof (cases "lookup k d nm")
  case None
  with assms show ?thesis
    by (auto simp: dir_remove_def)
next
  case (Some r)
  obtain e ofs where r: "r = (e, ofs)" by (cases r)
  obtain h k1 where op: "inode_open k (inode_sector e) = (h, k1)"
    by (cases "inode_open k (inode_sector e)")
  then have t1: "table k1 x = table k x"
    using table_inode_open [of k "inode_sector e" x] by simp
  show ?thesis
  proof (cases h)
    case None
    with Some r op assms t1 show ?thesis
      by (auto simp: dir_remove_def)
  next
    case (Some ino)
    obtain b k2 where wr:
      "inode_write_at wr_ok k1 (inode d) (e\<lparr>in_use := False\<rparr>) ofs = (b, k2)"
      by (cases "inode_write_at wr_ok k1 (inode d) (e\<lparr>in_use := False\<rparr>) ofs")
    show ?thesis
    proof (cases b)
      case False
      with wr have "k2 = k1" using inode_write_at_False by simp
      with \<open>lookup k d nm = Some r\<close> r op Some wr False assms t1 show ?thesis
        by (auto simp: dir_remove_def split: if_splits)
    next
      case True
      with \<open>lookup k d nm = Some r\<close> r op Some wr assms t1 show ?thesis
        by (auto simp: dir_remove_def split: if_splits)
    qed
  qed
qed

lemma dir_remove_True:
  assumes "dir_remove wr_ok k d nm = (True, k')"
  shows "\<exists>e ofs. lookup k d nm = Some (e, ofs) \<and> wr_ok \<and>
           table k' (inode d) = (table k (inode d))[ofs := e\<lparr>in_use := False\<rparr>] \<and>
           (\<forall>x. x \<noteq> inode d \<longrightarrow> table k' x = table k x)"
proof (cases "lookup k d nm")
  case None
  with assms show ?thesis
    by (simp add: dir_remove_def)
next
  case (Some r)
  obtain e ofs where r: "r = (e, ofs)" by (cases r)
  with Some have lk: "lookup k d nm = Some (e, ofs)" by simp
  then have ofs: "ofs < length (table k (inode d))"
    by (simp add: lookup_def lookup_from_Some)
  obtain h k1 where op: "inode_open k (inode_sector e) = (h, k1)"
    by (cases "inode_open k (inode_sector e)")
  then have t1: "\<And>x. table k1 x = table k x"
    using table_inode_open [of k "inode_sector e"] by simp
  show ?thesis
  proof (cases h)
    case None
    with lk op assms show ?thesis
      by (simp add: dir_remove_def)
  next
    case (Some ino)
    obtain b k2 where wr:
      "inode_write_at wr_ok k1 (inode d) (e\<lparr>in_use := False\<rparr>) ofs = (b, k2)"
      by (cases "inode_write_at wr_ok k1 (inode d) (e\<lparr>in_use := False\<rparr>) ofs")
    from lk op Some wr assms have b: "b" and k': "k' = inode_close (inode_remove k2 ino) (Some ino)"
      by (cases b; auto simp: dir_remove_def split: if_splits)+
    from wr b have wr: "inode_write_at wr_ok k1 (inode d) (e\<lparr>in_use := False\<rparr>) ofs = (True, k2)"
      by simp
    have "table k' (inode d) = (table k (inode d))[ofs := e\<lparr>in_use := False\<rparr>]"
      using inode_write_at_True(4) [OF wr] ofs by (simp add: k' t1)
    moreover have "\<forall>x. x \<noteq> inode d \<longrightarrow> table k' x = table k x"
      using inode_write_at_True(5) [OF wr] by (simp add: k' t1)
    ultimately show ?thesis
      using lk inode_write_at_True(1) [OF wr] by simp
  qed
qed


lemma inode_open_facts:
  assumes "inode_open k s = (h, k1)"
  shows "h = (if inodes k s = None then None else Some s)"
    and "inode_is_dir k1 x = inode_is_dir k x"
    and "inode_get_open_cnt k1 x =
           (if x = s \<and> inodes k s \<noteq> None then Suc (inode_get_open_cnt k s)
            else inode_get_open_cnt k x)"
  using assms
  by (auto simp: inode_open_def inode_is_dir_def inode_get_open_cnt_def
      split: option.splits if_splits)

section \<open>Facts about the names in a table\<close>

lemma lookup_None_iff:
  "lookup k d nm = None \<longleftrightarrow> nm \<notin> set (map name (filter in_use (table k (inode d))))"
proof -
  have "lookup k d nm = None \<longleftrightarrow>
        (\<forall>j < length (table k (inode d)).
           \<not> (in_use (table k (inode d) ! j) \<and> nm = name (table k (inode d) ! j)))"
    by (simp add: lookup_def lookup_from_None)
  also have "\<dots> \<longleftrightarrow> (\<forall>e \<in> set (table k (inode d)). \<not> (in_use e \<and> nm = name e))"
    by (metis in_set_conv_nth)
  also have "\<dots> \<longleftrightarrow> nm \<notin> set (map name (filter in_use (table k (inode d))))"
    by auto
  finally show ?thesis .
qed

lemma lookup_SomeD:
  assumes "lookup k d nm = Some (e, ofs)"
  shows "ofs < length (table k (inode d))" and "table k (inode d) ! ofs = e"
    and "in_use e" and "name e = nm"
  using assms by (auto simp: lookup_def lookup_from_Some)

lemma names_slot_filled:
  assumes "i < length t" and "\<not> in_use (t ! i)" and "in_use e"
  shows "map name (filter in_use (t[i := e])) =
           map name (filter in_use (take i t)) @ name e # map name (filter in_use (drop (Suc i) t))"
    and "map name (filter in_use t) =
           map name (filter in_use (take i t)) @ map name (filter in_use (drop (Suc i) t))"
proof -
  show "map name (filter in_use (t[i := e])) =
           map name (filter in_use (take i t)) @ name e # map name (filter in_use (drop (Suc i) t))"
    using assms by (simp add: upd_conv_take_nth_drop)
  have "filter in_use t = filter in_use (take i t @ t ! i # drop (Suc i) t)"
    using assms(1) by (simp add: id_take_nth_drop [symmetric])
  then show "map name (filter in_use t) =
           map name (filter in_use (take i t)) @ map name (filter in_use (drop (Suc i) t))"
    using assms(2) by simp
qed

lemma names_slot_cleared:
  assumes "i < length t" and "in_use (t ! i)" and "\<not> in_use e"
  shows "map name (filter in_use (t[i := e])) =
           map name (filter in_use (take i t)) @ map name (filter in_use (drop (Suc i) t))"
    and "map name (filter in_use t) =
           map name (filter in_use (take i t)) @ name (t ! i) #
             map name (filter in_use (drop (Suc i) t))"
proof -
  show "map name (filter in_use (t[i := e])) =
           map name (filter in_use (take i t)) @ map name (filter in_use (drop (Suc i) t))"
    using assms by (simp add: upd_conv_take_nth_drop)
  have "filter in_use t = filter in_use (take i t @ t ! i # drop (Suc i) t)"
    using assms(1) by (simp add: id_take_nth_drop [symmetric])
  then show "map name (filter in_use t) =
           map name (filter in_use (take i t)) @ name (t ! i) #
             map name (filter in_use (drop (Suc i) t))"
    using assms(2) by simp
qed

lemma names_unique_add:
  assumes add: "dir_add link_ok wr_ok k d nm sec = (True, k')"
    and inv: "names_unique (table k (inode d))"
  shows "names_unique (table k' (inode d))"
proof -
  let ?t = "table k (inode d)"
  let ?i = "length (takeWhile in_use ?t)"
  let ?e = "\<lparr>inode_sector = sec, name = nm, in_use = True\<rparr>"
  note ok = dir_add_True [OF add]
  from ok(3) have fresh: "nm \<notin> set (map name (filter in_use ?t))"
    by (simp add: lookup_None_iff)
  show ?thesis
  proof (cases "?i < length ?t")
    case True
    have free: "\<not> in_use (?t ! ?i)"
      using takeWhile_first_free(1) [OF True] .
    have used: "in_use ?e" by simp
    note n = names_slot_filled [OF True free used]
    from inv fresh show ?thesis
      unfolding names_unique_def ok(6) using True n by auto
  next
    case False
    with inv fresh show ?thesis
      unfolding names_unique_def ok(6) by simp
  qed
qed

lemma names_unique_remove:
  assumes rm: "dir_remove wr_ok k d nm = (True, k')"
    and inv: "names_unique (table k (inode d))"
  shows "names_unique (table k' (inode d))" and "lookup k' d nm = None"
proof -
  let ?t = "table k (inode d)"
  from dir_remove_True [OF rm] obtain e ofs where
    lk: "lookup k d nm = Some (e, ofs)" and
    t': "table k' (inode d) = ?t[ofs := e\<lparr>in_use := False\<rparr>]"
    by blast
  note l = lookup_SomeD [OF lk]
  have used: "in_use (?t ! ofs)" using l by simp
  have clr: "\<not> in_use (e\<lparr>in_use := False\<rparr>)" by simp
  note n = names_slot_cleared [OF l(1) used clr]
  from inv show "names_unique (table k' (inode d))"
    unfolding names_unique_def t' using n by auto
  from inv have "nm \<notin> set (map name (filter in_use (table k' (inode d))))"
    unfolding names_unique_def t' using n l by auto
  then show "lookup k' d nm = None"
    by (simp add: lookup_None_iff)
qed


lemma dir_add_lookup:
  assumes add: "dir_add link_ok wr_ok k d nm sec = (True, k')"
  shows "\<exists>e ofs. lookup k' d nm = Some (e, ofs) \<and> inode_sector e = sec"
proof -
  let ?t = "table k (inode d)"
  let ?t' = "table k' (inode d)"
  let ?i = "length (takeWhile in_use ?t)"
  let ?e = "\<lparr>inode_sector = sec, name = nm, in_use = True\<rparr>"
  note ok = dir_add_True [OF add]
  from ok(3) have fresh: "\<forall>x \<in> set ?t. in_use x \<longrightarrow> name x \<noteq> nm"
    by (auto simp: lookup_None_iff)
  have mem: "?e \<in> set ?t'" and sub: "set ?t' \<subseteq> insert ?e (set ?t)"
  proof -
    show "?e \<in> set ?t'"
      unfolding ok(6) by (simp add: set_update_memI)
    show "set ?t' \<subseteq> insert ?e (set ?t)"
      unfolding ok(6) using set_update_subset_insert [of ?t ?i ?e] by auto
  qed
  from mem have "nm \<in> set (map name (filter in_use ?t'))"
    by force
  then have "lookup k' d nm \<noteq> None"
    by (simp add: lookup_None_iff)
  then obtain e ofs where lk: "lookup k' d nm = Some (e, ofs)"
    by (cases "lookup k' d nm") auto
  note l = lookup_SomeD [OF lk]
  from l(1,2) have "e \<in> set ?t'"
    by (metis nth_mem)
  with sub fresh l(3,4) have "e = ?e" by auto
  with lk show ?thesis by simp
qed

lemma table_dir_create:
  "table (snd (dir_create ok k s n)) x =
     (if ok \<and> x = s then replicate n zero_entry else table k x)"
  by (simp add: dir_create_def inode_create_def table_def)

lemma names_unique_replicate_zero: "names_unique (replicate n zero_entry)"
  by (simp add: names_unique_def zero_entry_def)

lemma apply_op_names_unique:
  assumes inv: "\<forall>s. names_unique (table k s)"
  shows "names_unique (table (apply_op k op) s)"
proof (cases op)
  case (Create s' n ok)
  with inv show ?thesis
    by (simp add: table_dir_create names_unique_replicate_zero)
next
  case (Add d nm sec link_ok wr_ok)
  obtain b k' where r: "dir_add link_ok wr_ok k d nm sec = (b, k')"
    by (cases "dir_add link_ok wr_ok k d nm sec")
  show ?thesis
  proof (cases b)
    case False
    with r have "table k' s = table k s"
      using dir_add_False by simp
    with Add r inv show ?thesis by simp
  next
    case True
    with r have ok: "dir_add link_ok wr_ok k d nm sec = (True, k')" by simp
    show ?thesis
    proof (cases "s = inode d")
      case True
      with names_unique_add [OF ok] inv Add r show ?thesis by simp
    next
      case False
      with dir_add_True(7) [OF ok] inv Add r show ?thesis by simp
    qed
  qed
next
  case (Remove d nm wr_ok)
  obtain b k' where r: "dir_remove wr_ok k d nm = (b, k')"
    by (cases "dir_remove wr_ok k d nm")
  show ?thesis
  proof (cases b)
    case False
    with r have "table k' s = table k s"
      using dir_remove_False by simp
    with Remove r inv show ?thesis by simp
  next
    case True
    with r have ok: "dir_remove wr_ok k d nm = (True, k')" by simp
    show ?thesis
    proof (cases "s = inode d")
      case True
      with names_unique_remove(1) [OF ok] inv Remove r show ?thesis by simp
    next
      case False
      with dir_remove_True [OF ok] inv Remove r show ?thesis by auto
    qed
  qed
qed

lemma run_ops_names_unique:
  "\<forall>s. names_unique (table k s) \<Longrightarrow> names_unique (table (run_ops k ops) s)"
proof (induction ops arbitrary: k s)
  case Nil
  then show ?case by (simp add: run_ops_def)
next
  case (Cons op ops)
  have "\<forall>s. names_unique (table (apply_op k op) s)"
    using apply_op_names_unique [OF Cons.prems] by simp
  from Cons.IH [OF this] show ?case
    by (simp add: run_ops_def)
qed

lemma names_unique_no_inodes:
  "inodes k = Map.empty \<Longrightarrow> names_unique (table k s)"
  by (simp add: table_def names_unique_def)

text \<open>A name stays in a table until it is removed.\<close>

lemma apply_op_keeps_name:
  assumes here: "nm \<in> set (map name (filter in_use (table k s)))"
    and keep: "not_removed s nm k (op # ops)"
  shows "nm \<in> set (map name (filter in_use (table (apply_op k op) s)))"
proof (cases op)
  case (Create s' n ok)
  with keep have "s' \<noteq> s" by simp
  with Create here show ?thesis
    by (simp add: table_dir_create)
next
  case (Add d n sec link_ok wr_ok)
  obtain b k' where r: "dir_add link_ok wr_ok k d n sec = (b, k')"
    by (cases "dir_add link_ok wr_ok k d n sec")
  show ?thesis
  proof (cases b)
    case False
    with r have "table k' s = table k s"
      using dir_add_False by simp
    with Add r here show ?thesis by simp
  next
    case True
    with r have ok: "dir_add link_ok wr_ok k d n sec = (True, k')" by simp
    show ?thesis
    proof (cases "s = inode d")
      case False
      with dir_add_True(7) [OF ok] Add r here show ?thesis by simp
    next
      case same: True
      let ?t = "table k (inode d)"
      let ?i = "length (takeWhile in_use ?t)"
      let ?e = "\<lparr>inode_sector = sec, name = n, in_use = True\<rparr>"
      have "nm \<in> set (map name (filter in_use (table k' (inode d))))"
      proof (cases "?i < length ?t")
        case True
        have free: "\<not> in_use (?t ! ?i)"
          using takeWhile_first_free(1) [OF True] .
        have used: "in_use ?e" by simp
        note ns = names_slot_filled [OF True free used]
        from here same have "nm \<in> set (map name (filter in_use ?t))" by simp
        then show ?thesis
          unfolding dir_add_True(6) [OF ok] using True ns by auto
      next
        case False
        with here same show ?thesis
          unfolding dir_add_True(6) [OF ok] by simp
      qed
      with same Add r show ?thesis by simp
    qed
  qed
next
  case (Remove d n wr_ok)
  obtain b k' where r: "dir_remove wr_ok k d n = (b, k')"
    by (cases "dir_remove wr_ok k d n")
  show ?thesis
  proof (cases b)
    case False
    with r have "table k' s = table k s"
      using dir_remove_False by simp
    with Remove r here show ?thesis by simp
  next
    case True
    with r have ok: "dir_remove wr_ok k d n = (True, k')" by simp
    from dir_remove_True [OF ok] obtain e ofs where
      lk: "lookup k d n = Some (e, ofs)" and
      t': "table k' (inode d) = (table k (inode d))[ofs := e\<lparr>in_use := False\<rparr>]" and
      other: "\<forall>x. x \<noteq> inode d \<longrightarrow> table k' x = table k x"
      by blast
    show ?thesis
    proof (cases "s = inode d")
      case False
      with other Remove r here show ?thesis by simp
    next
      case same: True
      from keep Remove r True same have ne: "n \<noteq> nm" by auto
      note l = lookup_SomeD [OF lk]
      have used: "in_use (table k (inode d) ! ofs)" using l by simp
      have clr: "\<not> in_use (e\<lparr>in_use := False\<rparr>)" by simp
      note ns = names_slot_cleared [OF l(1) used clr]
      from here same have "nm \<in> set (map name (filter in_use (table k (inode d))))" by simp
      with ne l have "nm \<in> set (map name (filter in_use (table k' (inode d))))"
        unfolding t' using ns by auto
      with same Remove r show ?thesis by simp
    qed
  qed
qed

lemma not_removed_tail:
  "not_removed s nm k (op # ops) \<Longrightarrow> not_removed s nm (apply_op k op) ops"
  by (cases op) simp_all

lemma run_ops_keeps_name:
  "nm \<in> set (map name (filter in_use (table k s))) \<Longrightarrow> not_removed s nm k ops \<Longrightarrow>
   nm \<in> set (map name (filter in_use (table (run_ops k ops) s)))"
proof (induction ops arbitrary: k)
  case Nil
  then show ?case by (simp add: run_ops_def)
next
  case (Cons op ops)
  have "nm \<in> set (map name (filter in_use (table (apply_op k op) s)))"
    using apply_op_keeps_name [OF Cons.prems] .
  from Cons.IH [OF this not_removed_tail [OF Cons.prems(2)]] show ?case
    by (simp add: run_ops_def)
qed

lemma dir_add_dup:
  "lookup k d nm \<noteq> None \<Longrightarrow> \<not> fst (dir_add link_ok wr_ok k d nm sec)"
  by (simp add: dir_add_def)

section \<open>Facts about path resolution\<close>

lemma inode_open_close:
  assumes "inode_open k s = (Some t, k1)"
  shows "inode_close k1 (Some t) = k"
proof -
  from assms obtain i where i: "inodes k s = Some i" and t: "t = s"
    and k1: "k1 = k\<lparr>inodes := (inodes k)(s \<mapsto> i\<lparr>open_cnt := Suc (open_cnt i)\<rparr>)\<rparr>"
    by (auto simp: inode_open_def split: option.splits)
  have "(inodes k)(s \<mapsto> i) = inodes k"
    using i by (simp add: fun_upd_idem_iff)
  then show ?thesis
    by (simp add: inode_close_def k1 t)
qed

lemma open_component_SomeD:
  assumes "open_component k (Some d) token = Inr (Some t, k1)"
  shows "\<exists>s. inode_open k s = (Some t, k1)"
  using assms
  by (auto simp: open_component_def dir_get_parent_def dir_lookup_def
      split: if_splits option.splits)

lemma open_cnt_inode_close:
  "inode_get_open_cnt (inode_close k (Some s)) x =
     inode_get_open_cnt k x - (if x = s then 1 else 0)"
  by (simp add: inode_close_def inode_get_open_cnt_def split: option.splits)

lemma alloc_inode_open: 
  "inode_open k s = (h, k1) \<Longrightarrow> alloc_ok k1 = alloc_ok k \<and> alloc_cnt k1 = alloc_cnt k"
  by (auto simp: inode_open_def split: option.splits)

lemma alloc_inode_close [simp]:
  "alloc_ok (inode_close k h) = alloc_ok k" "alloc_cnt (inode_close k h) = alloc_cnt k"
  by (auto simp: inode_close_def split: option.splits)

lemma step_dot: "containing_dir_step k dir ''.'' = Inr (Continue dir, k)"
  by (simp add: containing_dir_step_def)

lemma step_abort:
  "token \<noteq> ''.'' \<Longrightarrow> open_component k dir token = Inr (None, k1) \<Longrightarrow>
   containing_dir_step k dir token = Inr (Abort, k1)"
  by (simp add: containing_dir_step_def)

lemma step_file:
  assumes "token \<noteq> ''.''" and oc: "open_component k (Some d) token = Inr (Some t, k1)"
    and "\<not> inode_is_dir k1 t"
  shows "containing_dir_step k (Some d) token = Inr (Continue (Some d), k)"
proof -
  from open_component_SomeD [OF oc] obtain s where "inode_open k s = (Some t, k1)" ..
  then have "inode_close k1 (Some t) = k" by (rule inode_open_close)
  with assms show ?thesis
    by (simp add: containing_dir_step_def)
qed

lemma step_dir:
  assumes "token \<noteq> ''.''" and oc: "open_component k (Some d) token = Inr (Some t, k1)"
    and isd: "inode_is_dir k1 t" and mem: "alloc_ok k (alloc_cnt k)"
  shows "\<exists>k2. containing_dir_step k (Some d) token =
                Inr (Continue (Some \<lparr>inode = t, pos = 0\<rparr>), k2) \<and>
              (\<forall>x. inode_get_open_cnt k2 x =
                 (inode_get_open_cnt k x + (if x = t then 1 else 0)) -
                 (if x = inode d then 1 else 0))"
proof -
  from open_component_SomeD [OF oc] obtain s where op: "inode_open k s = (Some t, k1)" ..
  from inode_open_facts(1,3) [OF op] have ts: "t = s" and ex: "inodes k s \<noteq> None"
    and cnt: "\<And>x. inode_get_open_cnt k1 x =
           (if x = s then Suc (inode_get_open_cnt k s) else inode_get_open_cnt k x)"
    by (auto split: if_splits)
  from alloc_inode_open [OF op] mem have mem1: "alloc_ok k1 (alloc_cnt k1)" by simp
  let ?k2 = "(inode_close k1 (Some (inode d)))\<lparr>alloc_cnt := Suc (alloc_cnt k1)\<rparr>"
  have "dir_open (dir_close k1 (Some d)) (Some t) = (Some \<lparr>inode = t, pos = 0\<rparr>, ?k2)"
    using mem1 by (simp add: dir_open_def dir_close_def kalloc_def)
  with assms have "containing_dir_step k (Some d) token =
                Inr (Continue (Some \<lparr>inode = t, pos = 0\<rparr>), ?k2)"
    by (simp add: containing_dir_step_def)
  moreover have "inode_get_open_cnt ?k2 x =
                 (inode_get_open_cnt k x + (if x = t then 1 else 0)) -
                 (if x = inode d then 1 else 0)" for x
  proof -
    have "inode_get_open_cnt ?k2 x = inode_get_open_cnt (inode_close k1 (Some (inode d))) x"
      by (simp add: inode_get_open_cnt_def)
    then show ?thesis
      by (simp add: open_cnt_inode_close cnt ts)
  qed
  ultimately show ?thesis by blast
qed

lemmas path_defs =
  get_containing_dir_def start_dir_def dir_open_root_def dir_reopen_def dir_open_def
  dir_close_def kalloc_def strtok_all.simps strtok_r_def containing_dir_step_def
  open_component_def dir_lookup_def dir_get_parent_def inode_reopen_def get_file_name_def

declare strtok_all.simps [simp del]

lemma strtok_r_slash: "strtok_r (CHR ''/'' # s) = strtok_r s"
  by (simp add: strtok_r_def)

lemma strtok_r_char:
  "c \<noteq> CHR ''/'' \<Longrightarrow>
   strtok_r (c # s) =
     Some (c # takeWhile (\<lambda>c. c \<noteq> CHR ''/'') s, drop 1 (dropWhile (\<lambda>c. c \<noteq> CHR ''/'') s))"
  by (simp add: strtok_r_def)

lemma strtok_all_Nil: "strtok_all [] = []"
  by (simp add: strtok_all.simps strtok_r_def)

lemma strtok_all_slash: "strtok_all (CHR ''/'' # s) = strtok_all s"
  by (subst strtok_all.simps, subst (2) strtok_all.simps) (simp add: strtok_r_slash)

lemma strtok_all_char:
  "c \<noteq> CHR ''/'' \<Longrightarrow>
   strtok_all (c # s) =
     (c # takeWhile (\<lambda>c. c \<noteq> CHR ''/'') s) #
     strtok_all (drop 1 (dropWhile (\<lambda>c. c \<noteq> CHR ''/'') s))"
  by (subst strtok_all.simps) (simp add: strtok_r_char)

lemma split_on_slash_takeWhile:
  "split_on_slash s =
     takeWhile (\<lambda>c. c \<noteq> CHR ''/'') s #
     (case dropWhile (\<lambda>c. c \<noteq> CHR ''/'') s of
        [] \<Rightarrow> []
      | c # r \<Rightarrow> split_on_slash r)"
  by (induction s) (auto split: list.splits)

lemma spec_components_Nil: "spec_components [] = []"
  by (simp add: spec_components_def)

lemma spec_components_slash: "spec_components (CHR ''/'' # s) = spec_components s"
  by (simp add: spec_components_def)

lemma spec_components_char:
  assumes "c \<noteq> CHR ''/''"
  shows "spec_components (c # s) =
     (c # takeWhile (\<lambda>c. c \<noteq> CHR ''/'') s) #
     spec_components (drop 1 (dropWhile (\<lambda>c. c \<noteq> CHR ''/'') s))"
proof -
  have "split_on_slash (c # s) =
          (c # takeWhile (\<lambda>c. c \<noteq> CHR ''/'') s) #
          (case dropWhile (\<lambda>c. c \<noteq> CHR ''/'') s of [] \<Rightarrow> [] | c # r \<Rightarrow> split_on_slash r)"
    using assms by (subst split_on_slash_takeWhile) simp
  then have sp: "spec_components (c # s) =
          (c # takeWhile (\<lambda>c. c \<noteq> CHR ''/'') s) #
          filter (\<lambda>piece. piece \<noteq> [])
            (case dropWhile (\<lambda>c. c \<noteq> CHR ''/'') s of [] \<Rightarrow> [] | c # r \<Rightarrow> split_on_slash r)"
    unfolding spec_components_def by simp
  show ?thesis
  proof (cases "dropWhile (\<lambda>c. c \<noteq> CHR ''/'') s")
    case Nil
    show ?thesis
      unfolding sp Nil by (simp add: spec_components_Nil)
  next
    case (Cons x r)
    show ?thesis
      unfolding sp Cons by (simp add: spec_components_def)
  qed
qed

lemma strtok_all_spec_components: "strtok_all s = spec_components s"
proof (induction s rule: length_induct)
  case (1 s)
  show ?case
  proof (cases s)
    case Nil
    then show ?thesis
      by (simp add: strtok_all_Nil spec_components_Nil)
  next
    case (Cons c r)
    show ?thesis
    proof (cases "c = CHR ''/''")
      case True
      with Cons 1 show ?thesis
        by (simp add: strtok_all_slash spec_components_slash)
    next
      case False
      have "length (drop 1 (dropWhile (\<lambda>c. c \<noteq> CHR ''/'') r)) < length s"
        using Cons length_dropWhile_le [of "\<lambda>c. c \<noteq> CHR ''/''" r] by simp
      with 1 have "strtok_all (drop 1 (dropWhile (\<lambda>c. c \<noteq> CHR ''/'') r)) =
                   spec_components (drop 1 (dropWhile (\<lambda>c. c \<noteq> CHR ''/'') r))"
        by blast
      with Cons False show ?thesis
        by (simp add: strtok_all_char spec_components_char)
    qed
  qed
qed

lemma last_token_last: "last_token token rest = last (token # rest)"
  by (induction token rest rule: last_token.induct) simp_all

lemma spec_components_nonempty: "c \<in> set (spec_components path) \<Longrightarrow> c \<noteq> []"
  by (simp add: spec_components_def)

lemma get_file_name_last:
  assumes "spec_components path \<noteq> []" and "alloc_ok k (alloc_cnt k)"
  shows "map_sum id fst (get_file_name k path) = Inr (last (spec_components path))"
proof -
  from assms(1) obtain token rest where ts: "strtok_all path = token # rest"
    by (cases "strtok_all path") (simp_all add: strtok_all_spec_components)
  then have "last (spec_components path) = last_token token rest"
    by (simp add: strtok_all_spec_components [symmetric] last_token_last)
  with ts assms(2) show ?thesis
    by (simp add: get_file_name_def kalloc_def)
qed

lemma get_file_name_no_component:
  "spec_components path = [] \<Longrightarrow> get_file_name k path = Inl Null_deref"
  by (simp add: get_file_name_def strtok_all_spec_components)

lemma dots_step:
  assumes "token = ''.'' \<or> token = ''..''" and "inode_is_dir k (inode d)"
    and "parents_exist k" and "\<forall>n. alloc_ok k n"
  shows "\<exists>d1 k1. containing_dir_step k (Some d) token = Inr (Continue (Some d1), k1) \<and>
           inode_is_dir k1 (inode d1) \<and> parents_exist k1 \<and> (\<forall>n. alloc_ok k1 n)"
proof (cases "token = ''.''")
  case True
  with assms show ?thesis by (simp add: step_dot)
next
  case False
  with assms have t: "token = ''..''" by simp
  from assms(2) obtain i where i: "inodes k (inode d) = Some i" and "is_dir i"
    by (auto simp: inode_is_dir_def split: option.splits)
  with assms(3) obtain j where j: "inodes k (parent i) = Some j"
    by (auto simp: parents_exist_def)
  show ?thesis
    using assms(2-4) i j unfolding t
    by (auto simp: containing_dir_step_def open_component_def dir_get_parent_def
        dir_get_inode_def inode_open_def inode_get_parent_def inode_is_dir_def dir_open_def
        dir_close_def kalloc_def inode_close_def parents_exist_def
        split: option.splits if_splits)
qed

lemma dots_loop:
  assumes "set (token # rest) \<subseteq> {''.'', ''..''}" and "inode_is_dir k (inode d)"
    and "parents_exist k" and "\<forall>n. alloc_ok k n"
  shows "\<exists>d' k'. containing_dir_loop k (Some d) token rest = Inr (Some d', k') \<and>
           inode_is_dir k' (inode d')"
  using assms
proof (induction rest arbitrary: k d token)
  case Nil
  then show ?case by simp
next
  case (Cons nxt rest)
  from Cons.prems have "token = ''.'' \<or> token = ''..''" by auto
  from dots_step [OF this Cons.prems(2-4)] obtain d1 k1 where
    s: "containing_dir_step k (Some d) token = Inr (Continue (Some d1), k1)"
    and inv: "inode_is_dir k1 (inode d1)" "parents_exist k1" "\<forall>n. alloc_ok k1 n"
    by blast
  from Cons.prems have "set (nxt # rest) \<subseteq> {''.'', ''..''}" by auto
  from Cons.IH [OF this inv] s show ?case by simp
qed

lemma loop_dots_before_last:
  "set (butlast (token # rest)) \<subseteq> {''.''} \<Longrightarrow>
   containing_dir_loop k dir token rest = Inr (dir, k)"
proof (induction rest arbitrary: token)
  case Nil
  then show ?case by simp
next
  case (Cons nxt rest)
  then have "token = ''.''" and "set (butlast (nxt # rest)) \<subseteq> {''.''}" by auto
  with Cons.IH [of nxt] show ?case by (simp add: step_dot)
qed

lemma start_dir_opens:
  assumes "inode_is_dir k ROOT_DIR_SECTOR"
    and "case cwd of None \<Rightarrow> True | Some c \<Rightarrow> inode_is_dir k (inode c)"
    and "parents_exist k" and "\<forall>n. alloc_ok k n"
  shows "\<exists>d k1. start_dir k cwd path = (Some d, k1) \<and>
           inode_is_dir k1 (inode d) \<and> parents_exist k1 \<and> (\<forall>n. alloc_ok k1 n)"
  using assms
  by (auto simp: start_dir_def dir_open_root_def dir_reopen_def inode_reopen_def inode_open_def
      dir_open_def kalloc_def inode_is_dir_def parents_exist_def
      split: option.splits if_splits)

section \<open>Facts about the system calls\<close>

declare write_loop.simps [simp del]

lemma putbuf_append:
  "putbuf um a (m + n) = putbuf um a m @ putbuf um (a + of_nat m) n"
proof -
  have 1: "[0..<m + n] = [0..<m] @ [m..<m + n]"
    by (rule upt_add_eq_append) simp
  have 2: "[m..<m + n] = map (\<lambda>i. i + m) [0..<n]"
    by (simp only: map_add_upt add.commute [of n m])
  show ?thesis
    unfolding putbuf_def 1 2 by (simp add: o_def ac_simps)
qed

lemma sint_small:
  fixes n :: "32 word"
  assumes "unat n < 2 ^ 31"
  shows "sint n = int (unat n)"
proof -
  have eq: "uint n = int (unat n)"
    by (rule uint_nat)
  have "int (unat n) < int (2 ^ 31)"
    using assms by (simp only: of_nat_less_iff)
  then have "uint n < 2 ^ 31"
    unfolding eq by simp
  moreover have "- (2 ^ 31) \<le> uint n"
  proof -
    have "- (2 ^ 31) \<le> (0::int)" by simp
    also have "0 \<le> uint n" by (rule uint_ge_0)
    finally show ?thesis .
  qed
  ultimately have "signed_take_bit 31 (uint n) = uint n"
    by (intro signed_take_bit_int_eq_self)
  moreover have "sint n = signed_take_bit 31 (uint n)"
    by (simp add: sint_uint)
  ultimately show ?thesis
    unfolding eq by simp
qed

lemma length_putbuf [simp]: "length (putbuf um a n) = n"
  by (simp add: putbuf_def)

lemma unat_sub_512:
  fixes len :: "32 word"
  assumes "512 < len"
  shows "unat (len - 512) = unat len - 512" and "512 < unat len"
  using assms by (simp_all add: unat_sub word_less_nat_alt word_le_nat_alt)

lemma write_loop_inv:
  assumes "write_loop um buffer len written out = (len', written', out')"
  shows "len' \<le> 512 \<and> unat len' \<le> unat len \<and>
         written' + len' = written + len \<and>
         written' = written + of_nat (unat len - unat len') \<and>
         concat out' = concat out @ putbuf um (buffer + written) (unat len - unat len') \<and>
         (\<forall>c \<in> set out'. c \<in> set out \<or> length c = 512)"
  using assms
proof (induction um buffer len written out rule: write_loop.induct)
  case (1 um buffer len written out)
  show ?case
  proof (cases "512 < len")
    case False
    with "1.prems" have "len' = len" "written' = written" "out' = out"
      by (simp_all add: write_loop.simps)
    with False show ?thesis
      by (simp add: putbuf_def not_less)
  next
    case True
    note u = unat_sub_512 [OF True]
    from True "1.prems" have rec:
      "write_loop um buffer (len - 512) (written + 512)
         (out @ [putbuf um (buffer + written) 512]) = (len', written', out')"
      by (subst (asm) write_loop.simps) simp
    note ih = "1.IH" [OF True rec]
    from ih have le: "unat len' \<le> unat len - 512"
      by (simp add: u)
    have split: "unat len - unat len' = 512 + (unat len - 512 - unat len')"
      using le u(2) by simp
    have "putbuf um (buffer + written) (unat len - unat len') =
          putbuf um (buffer + written) 512 @
          putbuf um (buffer + (written + 512)) (unat len - 512 - unat len')"
      unfolding split by (simp add: putbuf_append add.assoc)
    moreover have "written + 512 + of_nat (unat len - 512 - unat len') =
                   written + of_nat (unat len - unat len')"
      unfolding split by simp
    moreover have "written + 512 + (len - 512) = written + len"
      by simp
    ultimately show ?thesis
      using ih le by (auto simp: u)
  qed
qed

lemma find_file_elem_None: "find_file_elem files n = None \<longleftrightarrow> n \<notin> fd ` set files"
  by (induction files) auto

section \<open>The contract of dir\_add\<close>




section \<open>The guards of dir\_remove\<close>

text \<open>
  Claim C1.  \<^verbatim>\<open>dir_remove\<close> returns false and leaves the table of the directory as it
  was whenever the name is not found, the entry found names the root sector, the target
  is a directory whose open count, this operation's own open included, is above 1, or
  the target is a directory with a record in use.  For the root sector the inode there
  is taken to be a directory, as the root is (the code checks for the root sector on
  directories); with that, a remove that reaches the root fails whatever its open count
  and its contents.
\<close>

theorem dir_remove_guards:
  assumes guard:
      "lookup k d nm = None \<or>
       (\<exists>e ofs. lookup k d nm = Some (e, ofs) \<and>
          ((inode_sector e = ROOT_DIR_SECTOR \<and> root_is_directory k) \<or>
           (inode_is_dir k (inode_sector e) \<and>
            1 < inode_get_open_cnt (snd (inode_open k (inode_sector e))) (inode_sector e)) \<or>
           (inode_is_dir k (inode_sector e) \<and> \<not> dir_is_empty k (inode_sector e))))"
  shows "\<not> fst (dir_remove wr_ok k d nm) \<and>
         table (snd (dir_remove wr_ok k d nm)) (inode d) = table k (inode d)"
proof -
  have "\<not> fst (dir_remove wr_ok k d nm)"
  proof (cases "lookup k d nm")
    case None
    then show ?thesis by (simp add: dir_remove_def)
  next
    case (Some r)
    obtain e ofs where r: "r = (e, ofs)" by (cases r)
    with Some have lk: "lookup k d nm = Some (e, ofs)" by simp
    obtain h k1 where op: "inode_open k (inode_sector e) = (h, k1)"
      by (cases "inode_open k (inode_sector e)")
    note facts = inode_open_facts [OF op]
    show ?thesis
    proof (cases h)
      case None
      with lk op show ?thesis by (simp add: dir_remove_def)
    next
      case (Some ino)
      with facts(1) have ino: "ino = inode_sector e" and ex: "inodes k (inode_sector e) \<noteq> None"
        by (auto split: if_splits)
      have emp: "dir_is_empty k1 ino = dir_is_empty k ino"
        using table_inode_open [of k "inode_sector e" ino] op
        by (simp add: dir_is_empty_iff)
      from guard lk have
        "(inode_sector e = ROOT_DIR_SECTOR \<and> root_is_directory k) \<or>
         (inode_is_dir k (inode_sector e) \<and> 1 < inode_get_open_cnt k1 (inode_sector e)) \<or>
         (inode_is_dir k (inode_sector e) \<and> \<not> dir_is_empty k (inode_sector e))"
        using op by simp
      moreover have "inode_is_dir k (inode_sector e)"
        if "inode_sector e = ROOT_DIR_SECTOR \<and> root_is_directory k"
        using that ex by (auto simp: inode_is_dir_def root_is_directory_def)
      ultimately have
        "inode_is_dir k1 ino \<and>
           (1 < inode_get_open_cnt k1 ino \<or> inode_get_inumber ino = 1 \<or> \<not> dir_is_empty k1 ino)"
        using facts(2) [of ino] emp ino
        by (auto simp: inode_get_inumber_def ROOT_DIR_SECTOR_def)
      with lk op Some show ?thesis
        by (auto simp: dir_remove_def)
    qed
  qed
  moreover from this have "table (snd (dir_remove wr_ok k d nm)) (inode d) = table k (inode d)"
    using dir_remove_False [of wr_ok k d nm "snd (dir_remove wr_ok k d nm)" "inode d"]
    by (cases "dir_remove wr_ok k d nm") simp
  ultimately show ?thesis by simp
qed

theorem dir_remove_guards_witness:
  "root_is_directory ex_kernel \<and>
   lookup ex_kernel (ex_dir 4) ''r'' = Some (\<lparr>inode_sector = 1, name = ''r'', in_use = True\<rparr>, 0) \<and>
   \<not> fst (dir_remove True ex_kernel (ex_dir 4) ''r'') \<and>
   table (snd (dir_remove True ex_kernel (ex_dir 4) ''r'')) 4 = table ex_kernel 4 \<and>
   lookup ex_kernel (ex_dir 1) ''a'' = Some (\<lparr>inode_sector = 2, name = ''a'', in_use = True\<rparr>, 0) \<and>
   inode_is_dir ex_kernel 2 \<and> \<not> dir_is_empty ex_kernel 2 \<and>
   \<not> fst (dir_remove True ex_kernel (ex_dir 1) ''a'') \<and>
   table (snd (dir_remove True ex_kernel (ex_dir 1) ''a'')) 1 = table ex_kernel 1 \<and>
   lookup ex_kernel (ex_dir 1) ''zz'' = None \<and>
   \<not> fst (dir_remove True ex_kernel (ex_dir 1) ''zz'')"
proof -
  have rd: "root_is_directory ex_kernel"
    by (simp add: root_is_directory_def ex_defs ROOT_DIR_SECTOR_def)
  have lr: "lookup ex_kernel (ex_dir 4) ''r'' =
              Some (\<lparr>inode_sector = 1, name = ''r'', in_use = True\<rparr>, 0)"
    by (simp add: eval_defs ex_defs)
  have la: "lookup ex_kernel (ex_dir 1) ''a'' =
              Some (\<lparr>inode_sector = 2, name = ''a'', in_use = True\<rparr>, 0)"
    by (simp add: eval_defs ex_defs)
  have lz: "lookup ex_kernel (ex_dir 1) ''zz'' = None"
    by (simp add: eval_defs ex_defs)
  have ad: "inode_is_dir ex_kernel 2" and ne: "\<not> dir_is_empty ex_kernel 2"
    by (simp_all add: eval_defs ex_defs)
  have "\<not> fst (dir_remove True ex_kernel (ex_dir 4) ''r'') \<and>
        table (snd (dir_remove True ex_kernel (ex_dir 4) ''r'')) (inode (ex_dir 4)) =
          table ex_kernel (inode (ex_dir 4))"
    using dir_remove_guards [of ex_kernel "ex_dir 4" "''r''" True] lr rd
    by (simp add: ROOT_DIR_SECTOR_def)
  then have r: "\<not> fst (dir_remove True ex_kernel (ex_dir 4) ''r'') \<and>
        table (snd (dir_remove True ex_kernel (ex_dir 4) ''r'')) 4 = table ex_kernel 4"
    by (simp add: ex_dir_def)
  have "\<not> fst (dir_remove True ex_kernel (ex_dir 1) ''a'') \<and>
        table (snd (dir_remove True ex_kernel (ex_dir 1) ''a'')) (inode (ex_dir 1)) =
          table ex_kernel (inode (ex_dir 1))"
    using dir_remove_guards [of ex_kernel "ex_dir 1" "''a''" True] la ad ne
    by simp
  then have a: "\<not> fst (dir_remove True ex_kernel (ex_dir 1) ''a'') \<and>
        table (snd (dir_remove True ex_kernel (ex_dir 1) ''a'')) 1 = table ex_kernel 1"
    by (simp add: ex_dir_def)
  have z: "\<not> fst (dir_remove True ex_kernel (ex_dir 1) ''zz'')"
    using dir_remove_guards [of ex_kernel "ex_dir 1" "''zz''" True] lz by simp
  from rd lr r la ad ne a lz z show ?thesis by blast
qed

section \<open>Add, lookup and remove\<close>

text \<open>
  Claim C4.  When \<^verbatim>\<open>dir_add\<close> of a name and a sector succeeds, \<^verbatim>\<open>lookup\<close> of the name
  in the resulting table succeeds with a record whose sector is the one added (the name
  is then valid: \<^verbatim>\<open>dir_add\<close> refuses the others).  When \<^verbatim>\<open>dir_remove\<close> of a name
  succeeds on a table that satisfies the invariant of the data model (no name twice among
  the records in use), \<^verbatim>\<open>lookup\<close> of the name in the resulting table finds nothing.
\<close>

theorem add_lookup_remove_roundtrip:
  "(fst (dir_add link_ok wr_ok k d nm sec) \<longrightarrow>
      (\<exists>e ofs. lookup (snd (dir_add link_ok wr_ok k d nm sec)) d nm = Some (e, ofs) \<and>
               inode_sector e = sec)) \<and>
   (names_unique (table k2 (inode d2)) \<and> fst (dir_remove wr_ok2 k2 d2 nm2) \<longrightarrow>
      lookup (snd (dir_remove wr_ok2 k2 d2 nm2)) d2 nm2 = None)"
proof (intro conjI impI)
  assume "fst (dir_add link_ok wr_ok k d nm sec)"
  then have "dir_add link_ok wr_ok k d nm sec = (True, snd (dir_add link_ok wr_ok k d nm sec))"
    by (cases "dir_add link_ok wr_ok k d nm sec") simp
  then show "\<exists>e ofs. lookup (snd (dir_add link_ok wr_ok k d nm sec)) d nm = Some (e, ofs) \<and>
               inode_sector e = sec"
    by (rule dir_add_lookup)
next
  assume a: "names_unique (table k2 (inode d2)) \<and> fst (dir_remove wr_ok2 k2 d2 nm2)"
  then have "dir_remove wr_ok2 k2 d2 nm2 = (True, snd (dir_remove wr_ok2 k2 d2 nm2))"
    by (cases "dir_remove wr_ok2 k2 d2 nm2") simp
  with a show "lookup (snd (dir_remove wr_ok2 k2 d2 nm2)) d2 nm2 = None"
    using names_unique_remove(2) by blast
qed

theorem add_lookup_remove_roundtrip_witness:
  "fst (dir_add True True ex_kernel (ex_dir 1) ''c'' 9) \<and>
   (\<exists>e ofs. lookup (snd (dir_add True True ex_kernel (ex_dir 1) ''c'' 9)) (ex_dir 1) ''c'' = Some (e, ofs) \<and>
            inode_sector e = 9) \<and>
   names_unique (table ex_kernel (inode (ex_dir 1))) \<and>
   fst (dir_remove True ex_kernel (ex_dir 1) ''f'') \<and>
   lookup (snd (dir_remove True ex_kernel (ex_dir 1) ''f'')) (ex_dir 1) ''f'' = None"
proof -
  have a: "fst (dir_add True True ex_kernel (ex_dir 1) ''c'' 9)"
    by (simp add: dir_add_def eval_defs ex_defs)
  have u: "names_unique (table ex_kernel (inode (ex_dir 1)))"
    by (simp add: names_unique_def table_def ex_defs)
  have r: "fst (dir_remove True ex_kernel (ex_dir 1) ''f'')"
    by (simp add: dir_remove_def eval_defs ex_defs)
  from add_lookup_remove_roundtrip
         [of True True ex_kernel "ex_dir 1" "''c''" 9 ex_kernel "ex_dir 1" True "''f''"] a u r
  show ?thesis by blast
qed


section \<open>Uniqueness of names\<close>

text \<open>
  Claim C3.  In every state reached from a disk without inodes by creating directories,
  adding and removing entries, no table holds two records in use with the same name.
  And once \<^verbatim>\<open>dir_add\<close> of a name has succeeded on a directory, every later
  \<^verbatim>\<open>dir_add\<close> of that name on the same directory (through any handle) fails, whatever
  the sector, as long as no \<^verbatim>\<open>dir_remove\<close> of the name has succeeded on it.
\<close>

theorem names_unique_reachable:
  "(inodes k0 = Map.empty \<longrightarrow> names_unique (table (run_ops k0 ops) s)) \<and>
   (fst (dir_add link_ok wr_ok k d nm sec_a) \<and>
    not_removed (inode d) nm (snd (dir_add link_ok wr_ok k d nm sec_a)) ops2 \<and>
    inode d2 = inode d \<longrightarrow>
      \<not> fst (dir_add link_ok2 wr_ok2
               (run_ops (snd (dir_add link_ok wr_ok k d nm sec_a)) ops2) d2 nm sec_b))"
proof (intro conjI impI)
  assume "inodes k0 = Map.empty"
  then have "\<forall>s. names_unique (table k0 s)"
    by (simp add: names_unique_no_inodes)
  then show "names_unique (table (run_ops k0 ops) s)"
    by (rule run_ops_names_unique)
next
  let ?k1 = "snd (dir_add link_ok wr_ok k d nm sec_a)"
  assume a: "fst (dir_add link_ok wr_ok k d nm sec_a) \<and>
    not_removed (inode d) nm ?k1 ops2 \<and> inode d2 = inode d"
  then have ok: "dir_add link_ok wr_ok k d nm sec_a = (True, ?k1)"
    by (cases "dir_add link_ok wr_ok k d nm sec_a") simp
  from dir_add_lookup [OF ok] have "lookup ?k1 d nm \<noteq> None" by auto
  then have "nm \<in> set (map name (filter in_use (table ?k1 (inode d))))"
    by (simp add: lookup_None_iff)
  with a have "nm \<in> set (map name (filter in_use (table (run_ops ?k1 ops2) (inode d))))"
    using run_ops_keeps_name by blast
  with a have "lookup (run_ops ?k1 ops2) d2 nm \<noteq> None"
    by (simp add: lookup_None_iff)
  then show "\<not> fst (dir_add link_ok2 wr_ok2 (run_ops ?k1 ops2) d2 nm sec_b)"
    by (rule dir_add_dup)
qed

theorem names_unique_reachable_witness:
  "inodes empty_disk = Map.empty \<and>
   names_unique (table (run_ops empty_disk ex_ops) 1) \<and>
   fst (dir_add True True ex_kernel (ex_dir 1) ''c'' 9) \<and>
   not_removed 1 ''c'' (snd (dir_add True True ex_kernel (ex_dir 1) ''c'' 9)) ex_ops2 \<and>
   \<not> fst (dir_add True True
            (run_ops (snd (dir_add True True ex_kernel (ex_dir 1) ''c'' 9)) ex_ops2)
            (ex_dir 1) ''c'' 8)"
proof -
  have e: "inodes empty_disk = Map.empty"
    by (simp add: empty_disk_def)
  have a: "fst (dir_add True True ex_kernel (ex_dir 1) ''c'' 9)"
    by (simp add: dir_add_def eval_defs ex_defs)
  have n: "not_removed (inode (ex_dir 1)) ''c''
             (snd (dir_add True True ex_kernel (ex_dir 1) ''c'' 9)) ex_ops2"
    by (simp add: ex_ops2_def ex_dir_def)
  have i: "inode (ex_dir 1) = inode (ex_dir 1)" ..
  from names_unique_reachable
         [of empty_disk ex_ops 1 True True ex_kernel "ex_dir 1" "''c''" 9 ex_ops2 "ex_dir 1" True True 8]
       e a n i
  have "names_unique (table (run_ops empty_disk ex_ops) 1) \<and>
        \<not> fst (dir_add True True
            (run_ops (snd (dir_add True True ex_kernel (ex_dir 1) ''c'' 9)) ex_ops2)
            (ex_dir 1) ''c'' 8)"
    by blast
  with e a n show ?thesis
    by (simp add: ex_dir_def)
qed


section \<open>The components of a path but the last\<close>

text \<open>
  Claim C2, as stated, is false: a component before the last that names a plain file does
  not end the resolution.  On the example, \<^verbatim>\<open>/f/x\<close> resolves to the root directory
  although \<^verbatim>\<open>f\<close> is a plain file.
\<close>

theorem plain_file_component_counterexample:
  "strtok_all ''/f/x'' = [''f'', ''x''] \<and>
   lookup ex_kernel (ex_dir 1) ''f'' = Some (\<lparr>inode_sector = 3, name = ''f'', in_use = True\<rparr>, 2) \<and>
   \<not> inode_is_dir ex_kernel 3 \<and>
   map_sum id fst (get_containing_dir ex_kernel None ''/f/x'') = Inr (Some \<lparr>inode = 1, pos = 0\<rparr>)"
  by (simp add: path_defs eval_defs ex_defs)

text \<open>
  Claim C2, amended.  In the loop of \<^verbatim>\<open>get_containing_dir\<close>, which runs for every
  component but the last: a component \<^verbatim>\<open>.\<close> changes nothing; \<^verbatim>\<open>..\<close> opens the parent
  stored in the inode of the current directory, any other component is looked up in the
  current directory and the inode of the entry found is opened; when no inode is obtained
  (the entry is not found, or the inode cannot be opened) the resolution returns a null
  pointer; when the inode is a directory (and the allocator serves the new handle) the
  resolution goes on from a new handle on it, with cursor 0, and the previous handle's
  inode is closed; when the inode is a plain file it is closed again and the resolution
  goes on from the unchanged current directory with the next component.
\<close>

theorem containing_dir_components:
  "containing_dir_loop k dir ''.'' (nxt # rest) = containing_dir_loop k dir nxt rest \<and>
   open_component k (Some d) ''..'' = Inr (inode_open k (inode_get_parent k (inode d))) \<and>
   (token \<noteq> ''..'' \<longrightarrow>
      open_component k (Some d) token =
        Inr (case lookup k d token of
               None \<Rightarrow> (None, k)
             | Some (e, ofs) \<Rightarrow> inode_open k (inode_sector e))) \<and>
   (token \<noteq> ''.'' \<and> open_component k dir token = Inr (None, k1) \<longrightarrow>
      containing_dir_loop k dir token (nxt # rest) = Inr (None, k1)) \<and>
   (token \<noteq> ''.'' \<and> open_component k (Some d) token = Inr (Some t, k1) \<and>
    inode_is_dir k1 t \<and> alloc_ok k (alloc_cnt k) \<longrightarrow>
      (\<exists>k2. containing_dir_loop k (Some d) token (nxt # rest) =
               containing_dir_loop k2 (Some \<lparr>inode = t, pos = 0\<rparr>) nxt rest \<and>
             (\<forall>x. inode_get_open_cnt k2 x =
                (inode_get_open_cnt k x + (if x = t then 1 else 0)) -
                (if x = inode d then 1 else 0)))) \<and>
   (token \<noteq> ''.'' \<and> open_component k (Some d) token = Inr (Some t, k1) \<and>
    \<not> inode_is_dir k1 t \<longrightarrow>
      containing_dir_loop k (Some d) token (nxt # rest) =
        containing_dir_loop k (Some d) nxt rest)"
proof (intro conjI impI)
  show "containing_dir_loop k dir ''.'' (nxt # rest) = containing_dir_loop k dir nxt rest"
    by (simp add: step_dot)
  show "open_component k (Some d) ''..'' = Inr (inode_open k (inode_get_parent k (inode d)))"
    by (simp add: open_component_def dir_get_parent_def dir_get_inode_def)
  show "open_component k (Some d) token =
        Inr (case lookup k d token of
               None \<Rightarrow> (None, k)
             | Some (e, ofs) \<Rightarrow> inode_open k (inode_sector e))"
    if "token \<noteq> ''..''"
    using that by (simp add: open_component_def dir_lookup_def split: option.splits)
  show "containing_dir_loop k dir token (nxt # rest) = Inr (None, k1)"
    if "token \<noteq> ''.'' \<and> open_component k dir token = Inr (None, k1)"
    using that by (simp add: step_abort)
  show "\<exists>k2. containing_dir_loop k (Some d) token (nxt # rest) =
               containing_dir_loop k2 (Some \<lparr>inode = t, pos = 0\<rparr>) nxt rest \<and>
             (\<forall>x. inode_get_open_cnt k2 x =
                (inode_get_open_cnt k x + (if x = t then 1 else 0)) -
                (if x = inode d then 1 else 0))"
    if "token \<noteq> ''.'' \<and> open_component k (Some d) token = Inr (Some t, k1) \<and>
        inode_is_dir k1 t \<and> alloc_ok k (alloc_cnt k)"
  proof -
    from that step_dir [of token k d t k1] obtain k2 where
      "containing_dir_step k (Some d) token = Inr (Continue (Some \<lparr>inode = t, pos = 0\<rparr>), k2)"
      "\<forall>x. inode_get_open_cnt k2 x =
                (inode_get_open_cnt k x + (if x = t then 1 else 0)) -
                (if x = inode d then 1 else 0)"
      by blast
    then show ?thesis by auto
  qed
  show "containing_dir_loop k (Some d) token (nxt # rest) =
        containing_dir_loop k (Some d) nxt rest"
    if "token \<noteq> ''.'' \<and> open_component k (Some d) token = Inr (Some t, k1) \<and>
        \<not> inode_is_dir k1 t"
    using that step_file [of token k d t k1] by simp
qed

theorem containing_dir_components_witness:
  "containing_dir_loop ex_kernel (Some (ex_dir 1)) ''.'' [''x''] =
     containing_dir_loop ex_kernel (Some (ex_dir 1)) ''x'' [] \<and>
   open_component ex_kernel (Some (ex_dir 4)) ''..'' =
     Inr (inode_open ex_kernel (inode_get_parent ex_kernel (inode (ex_dir 4)))) \<and>
   ''zz'' \<noteq> ''..'' \<and>
   open_component ex_kernel (Some (ex_dir 1)) ''zz'' =
     Inr (case lookup ex_kernel (ex_dir 1) ''zz'' of
            None \<Rightarrow> (None, ex_kernel)
          | Some (e, ofs) \<Rightarrow> inode_open ex_kernel (inode_sector e)) \<and>
   open_component ex_kernel (Some (ex_dir 1)) ''zz'' = Inr (None, ex_kernel) \<and>
   containing_dir_loop ex_kernel (Some (ex_dir 1)) ''zz'' [''x''] = Inr (None, ex_kernel) \<and>
   open_component ex_kernel (Some (ex_dir 1)) ''a'' = Inr (Some 2, snd (inode_open ex_kernel 2)) \<and>
   inode_is_dir (snd (inode_open ex_kernel 2)) 2 \<and>
   alloc_ok ex_kernel (alloc_cnt ex_kernel) \<and>
   (\<exists>k2. containing_dir_loop ex_kernel (Some (ex_dir 1)) ''a'' [''x''] =
            containing_dir_loop k2 (Some \<lparr>inode = 2, pos = 0\<rparr>) ''x'' [] \<and>
          (\<forall>x. inode_get_open_cnt k2 x =
             (inode_get_open_cnt ex_kernel x + (if x = 2 then 1 else 0)) -
             (if x = inode (ex_dir 1) then 1 else 0))) \<and>
   open_component ex_kernel (Some (ex_dir 1)) ''f'' = Inr (Some 3, snd (inode_open ex_kernel 3)) \<and>
   \<not> inode_is_dir (snd (inode_open ex_kernel 3)) 3 \<and>
   containing_dir_loop ex_kernel (Some (ex_dir 1)) ''f'' [''x''] =
     containing_dir_loop ex_kernel (Some (ex_dir 1)) ''x'' []"
proof -
  have z: "''zz'' \<noteq> ''.'' \<and> open_component ex_kernel (Some (ex_dir 1)) ''zz'' = Inr (None, ex_kernel)"
    by (simp add: open_component_def dir_lookup_def eval_defs ex_defs)
  have a: "''a'' \<noteq> ''.'' \<and>
           open_component ex_kernel (Some (ex_dir 1)) ''a'' = Inr (Some 2, snd (inode_open ex_kernel 2)) \<and>
           inode_is_dir (snd (inode_open ex_kernel 2)) 2 \<and>
           alloc_ok ex_kernel (alloc_cnt ex_kernel)"
    by (simp add: open_component_def dir_lookup_def eval_defs ex_defs)
  have f: "''f'' \<noteq> ''.'' \<and>
           open_component ex_kernel (Some (ex_dir 1)) ''f'' = Inr (Some 3, snd (inode_open ex_kernel 3)) \<and>
           \<not> inode_is_dir (snd (inode_open ex_kernel 3)) 3"
    by (simp add: open_component_def dir_lookup_def eval_defs ex_defs)
  note z1 = containing_dir_components
      [of ex_kernel "Some (ex_dir 1)" "''x''" "[]" "ex_dir 1" "''zz''" ex_kernel]
  note a1 = containing_dir_components
      [of ex_kernel "Some (ex_dir 1)" "''x''" "[]" "ex_dir 1" "''a''" "snd (inode_open ex_kernel 2)" 2]
  note f1 = containing_dir_components
      [of ex_kernel "Some (ex_dir 1)" "''x''" "[]" "ex_dir 1" "''f''" "snd (inode_open ex_kernel 3)" 3]
  from z z1 have zc: "containing_dir_loop ex_kernel (Some (ex_dir 1)) ''zz'' [''x''] = Inr (None, ex_kernel)"
    by blast
  have zn: "''zz'' \<noteq> ''..''" by simp
  from zn z1 have zl: "open_component ex_kernel (Some (ex_dir 1)) ''zz'' =
     Inr (case lookup ex_kernel (ex_dir 1) ''zz'' of
            None \<Rightarrow> (None, ex_kernel)
          | Some (e, ofs) \<Rightarrow> inode_open ex_kernel (inode_sector e))"
    by blast
  from z1 have dot: "containing_dir_loop ex_kernel (Some (ex_dir 1)) ''.'' [''x''] =
     containing_dir_loop ex_kernel (Some (ex_dir 1)) ''x'' []"
    by blast
  from containing_dir_components
      [of ex_kernel "Some (ex_dir 1)" "''x''" "[]" "ex_dir 4" "''zz''" ex_kernel]
  have par: "open_component ex_kernel (Some (ex_dir 4)) ''..'' =
     Inr (inode_open ex_kernel (inode_get_parent ex_kernel (inode (ex_dir 4))))"
    by blast
  from a a1 have ac: "\<exists>k2. containing_dir_loop ex_kernel (Some (ex_dir 1)) ''a'' [''x''] =
            containing_dir_loop k2 (Some \<lparr>inode = 2, pos = 0\<rparr>) ''x'' [] \<and>
          (\<forall>x. inode_get_open_cnt k2 x =
             (inode_get_open_cnt ex_kernel x + (if x = 2 then 1 else 0)) -
             (if x = inode (ex_dir 1) then 1 else 0))"
    by blast
  from f f1 have fc: "containing_dir_loop ex_kernel (Some (ex_dir 1)) ''f'' [''x''] =
     containing_dir_loop ex_kernel (Some (ex_dir 1)) ''x'' []"
    by blast
  from dot par zn zl z zc a ac f fc show ?thesis by blast
qed


section \<open>The leaf name and the directory of a path of dots\<close>

text \<open>
  Claim C6, as stated, is false.  For a path made of \<^verbatim>\<open>.\<close> and \<^verbatim>\<open>..\<close> components the
  leaf name is the last of them, not the empty string, while the containing directory is
  returned as the claim says: on the example, \<^verbatim>\<open>.\<close> gives the root directory and the
  name \<^verbatim>\<open>.\<close>, and \<^verbatim>\<open>../..\<close> from the directory \<open>b\<close> gives the directory \<open>a\<close> and
  the name \<^verbatim>\<open>..\<close>.
\<close>

theorem empty_leaf_counterexample:
  "spec_components ''.'' = [''.''] \<and>
   map_sum id fst (get_file_name ex_kernel ''.'') = Inr ''.'' \<and>
   map_sum id fst (get_containing_dir ex_kernel None ''.'') = Inr (Some \<lparr>inode = 1, pos = 0\<rparr>) \<and>
   spec_components ''../..'' = [''..'', ''..''] \<and>
   map_sum id fst (get_file_name ex_kernel ''../..'') = Inr ''..'' \<and>
   map_sum id fst (get_containing_dir ex_kernel (Some (ex_dir 4)) ''../..'') =
     Inr (Some \<lparr>inode = 2, pos = 0\<rparr>)"
  by (simp add: spec_components_def path_defs eval_defs ex_defs)

text \<open>
  Claim C6, amended.  For every path with at least one component, \<^verbatim>\<open>get_file_name\<close>
  (when the allocator serves the copy of the name) returns the last component as it is
  written, which is not empty; so for a path whose components are all \<^verbatim>\<open>.\<close> or \<^verbatim>\<open>..\<close>
  the leaf name is \<^verbatim>\<open>.\<close> or \<^verbatim>\<open>..\<close>.  When every component before the last is \<^verbatim>\<open>.\<close>
  (so also for a single component), \<^verbatim>\<open>get_containing_dir\<close> returns the directory it
  starts from.  For every path whose components are all \<^verbatim>\<open>.\<close> or \<^verbatim>\<open>..\<close>, on a disk
  where the root sector holds a directory, the working directory (if the thread has one)
  is a directory, the parent link of every inode names an existing inode and the
  allocator serves every request, \<^verbatim>\<open>get_containing_dir\<close> returns a handle, not a null
  pointer, on a directory.  Nothing is said of the paths without a component.
\<close>

theorem dot_path_resolution:
  "(spec_components path \<noteq> [] \<and> alloc_ok k (alloc_cnt k) \<longrightarrow>
      map_sum id fst (get_file_name k path) = Inr (last (spec_components path)) \<and>
      last (spec_components path) \<noteq> []) \<and>
   (spec_components path \<noteq> [] \<and> set (spec_components path) \<subseteq> {''.'', ''..''} \<and>
    alloc_ok k (alloc_cnt k) \<longrightarrow>
      map_sum id fst (get_file_name k path) = Inr ''.'' \<or>
      map_sum id fst (get_file_name k path) = Inr ''..'') \<and>
   (spec_components path \<noteq> [] \<and> set (butlast (spec_components path)) \<subseteq> {''.''} \<longrightarrow>
      get_containing_dir k cwd path = Inr (start_dir k cwd path)) \<and>
   (spec_components path \<noteq> [] \<and> set (spec_components path) \<subseteq> {''.'', ''..''} \<and>
    inode_is_dir k ROOT_DIR_SECTOR \<and>
    (case cwd of None \<Rightarrow> True | Some c \<Rightarrow> inode_is_dir k (inode c)) \<and>
    parents_exist k \<and> (\<forall>n. alloc_ok k n) \<longrightarrow>
      (\<exists>d' k'. get_containing_dir k cwd path = Inr (Some d', k') \<and>
               inode_is_dir k' (inode d')))"
proof (intro conjI impI)
  assume a: "spec_components path \<noteq> [] \<and> alloc_ok k (alloc_cnt k)"
  then show "map_sum id fst (get_file_name k path) = Inr (last (spec_components path))"
    by (simp add: get_file_name_last)
  from a have "last (spec_components path) \<in> set (spec_components path)"
    by simp
  then show "last (spec_components path) \<noteq> []"
    by (rule spec_components_nonempty)
next
  assume a: "spec_components path \<noteq> [] \<and> set (spec_components path) \<subseteq> {''.'', ''..''} \<and>
    alloc_ok k (alloc_cnt k)"
  then have "last (spec_components path) \<in> {''.'', ''..''}"
    using last_in_set [of "spec_components path"] by blast
  with a show "map_sum id fst (get_file_name k path) = Inr ''.'' \<or>
      map_sum id fst (get_file_name k path) = Inr ''..''"
    by (auto simp: get_file_name_last)
next
  assume a: "spec_components path \<noteq> [] \<and> set (butlast (spec_components path)) \<subseteq> {''.''}"
  then obtain token rest where ts: "strtok_all path = token # rest"
    by (cases "strtok_all path") (simp_all add: strtok_all_spec_components)
  with a have "set (butlast (token # rest)) \<subseteq> {''.''}"
    by (simp add: strtok_all_spec_components [symmetric])
  then have "containing_dir_loop k1 dir token rest = Inr (dir, k1)" for k1 dir
    by (rule loop_dots_before_last)
  with ts show "get_containing_dir k cwd path = Inr (start_dir k cwd path)"
    by (cases "start_dir k cwd path") (simp add: get_containing_dir_def)
next
  assume a: "spec_components path \<noteq> [] \<and> set (spec_components path) \<subseteq> {''.'', ''..''} \<and>
    inode_is_dir k ROOT_DIR_SECTOR \<and>
    (case cwd of None \<Rightarrow> True | Some c \<Rightarrow> inode_is_dir k (inode c)) \<and>
    parents_exist k \<and> (\<forall>n. alloc_ok k n)"
  then obtain token rest where ts: "strtok_all path = token # rest"
    by (cases "strtok_all path") (simp_all add: strtok_all_spec_components)
  with a have dots: "set (token # rest) \<subseteq> {''.'', ''..''}"
    by (simp add: strtok_all_spec_components [symmetric])
  from a start_dir_opens [of k cwd path] obtain d k1 where
    st: "start_dir k cwd path = (Some d, k1)"
    and inv: "inode_is_dir k1 (inode d)" "parents_exist k1" "\<forall>n. alloc_ok k1 n"
    by blast
  from dots_loop [OF dots inv] obtain d' k' where
    "containing_dir_loop k1 (Some d) token rest = Inr (Some d', k')"
    "inode_is_dir k' (inode d')"
    by blast
  with ts st show "\<exists>d' k'. get_containing_dir k cwd path = Inr (Some d', k') \<and>
               inode_is_dir k' (inode d')"
    by (simp add: get_containing_dir_def)
qed

theorem dot_path_resolution_witness:
  "spec_components ''../..'' = [''..'', ''..''] \<and>
   alloc_ok ex_kernel (alloc_cnt ex_kernel) \<and>
   map_sum id fst (get_file_name ex_kernel ''../..'') = Inr (last (spec_components ''../..'')) \<and>
   last (spec_components ''../..'') \<noteq> [] \<and>
   (map_sum id fst (get_file_name ex_kernel ''../..'') = Inr ''.'' \<or>
    map_sum id fst (get_file_name ex_kernel ''../..'') = Inr ''..'') \<and>
   spec_components ''./..'' = [''.'', ''..''] \<and>
   get_containing_dir ex_kernel (Some (ex_dir 4)) ''./..'' =
     Inr (start_dir ex_kernel (Some (ex_dir 4)) ''./..'') \<and>
   inode_is_dir ex_kernel ROOT_DIR_SECTOR \<and>
   (case Some (ex_dir 4) of None \<Rightarrow> True | Some c \<Rightarrow> inode_is_dir ex_kernel (inode c)) \<and>
   parents_exist ex_kernel \<and> (\<forall>n. alloc_ok ex_kernel n) \<and>
   (\<exists>d' k'. get_containing_dir ex_kernel (Some (ex_dir 4)) ''../..'' = Inr (Some d', k') \<and>
            inode_is_dir k' (inode d')) \<and>
   map_sum id fst (get_containing_dir ex_kernel (Some (ex_dir 4)) ''../..'') =
     Inr (Some \<lparr>inode = 2, pos = 0\<rparr>)"
proof -
  have c: "spec_components ''../..'' = [''..'', ''..'']"
    and c2: "spec_components ''./..'' = [''.'', ''..'']"
    by (simp_all add: spec_components_def)
  have m: "alloc_ok ex_kernel (alloc_cnt ex_kernel)" and ma: "\<forall>n. alloc_ok ex_kernel n"
    by (simp_all add: ex_defs)
  have r: "inode_is_dir ex_kernel ROOT_DIR_SECTOR"
    and w: "case Some (ex_dir 4) of None \<Rightarrow> True | Some c \<Rightarrow> inode_is_dir ex_kernel (inode c)"
    by (simp_all add: inode_is_dir_def ROOT_DIR_SECTOR_def ex_defs)
  have p: "parents_exist ex_kernel"
    by (auto simp: parents_exist_def ex_defs split: if_splits)
  have v: "map_sum id fst (get_containing_dir ex_kernel (Some (ex_dir 4)) ''../..'') =
     Inr (Some \<lparr>inode = 2, pos = 0\<rparr>)"
    by (simp add: path_defs eval_defs ex_defs)
  have ne: "spec_components ''../..'' \<noteq> []"
    and dots: "set (spec_components ''../..'') \<subseteq> {''.'', ''..''}"
    using c by simp_all
  have ne2: "spec_components ''./..'' \<noteq> []"
    and dot2: "set (butlast (spec_components ''./..'')) \<subseteq> {''.''}"
    using c2 by simp_all
  from dot_path_resolution [of "''../..''" ex_kernel "Some (ex_dir 4)"] ne dots m r w p ma
  have "map_sum id fst (get_file_name ex_kernel ''../..'') = Inr (last (spec_components ''../..'')) \<and>
        last (spec_components ''../..'') \<noteq> [] \<and>
        (map_sum id fst (get_file_name ex_kernel ''../..'') = Inr ''.'' \<or>
         map_sum id fst (get_file_name ex_kernel ''../..'') = Inr ''..'') \<and>
        (\<exists>d' k'. get_containing_dir ex_kernel (Some (ex_dir 4)) ''../..'' = Inr (Some d', k') \<and>
            inode_is_dir k' (inode d'))"
    by blast
  moreover from dot_path_resolution [of "''./..''" ex_kernel "Some (ex_dir 4)"] ne2 dot2
  have "get_containing_dir ex_kernel (Some (ex_dir 4)) ''./..'' =
     Inr (start_dir ex_kernel (Some (ex_dir 4)) ''./..'')"
    by blast
  ultimately show ?thesis using c c2 m ma r w p v by blast
qed


section \<open>Writing to the console\<close>

text \<open>
  Claim C7.  For every buffer address and every length \<open>n\<close>, \<^verbatim>\<open>write\<close> on descriptor 1
  returns \<open>n\<close>, and the transfers it makes to the console, in their order, are the
  \<open>n\<close> bytes of the buffer in their order, each transfer at most 512 bytes long.  The
  value returned is an \<^verbatim>\<open>int\<close> with the 32 bits of \<open>n\<close>; read as a signed number it is
  \<open>n\<close> for every \<open>n\<close> below \<open>2^31\<close>.
\<close>

theorem console_write_chunks:
  "fst (sys_write um files fw 1 buffer n) = Returned n \<and>
   concat (snd (sys_write um files fw 1 buffer n)) = putbuf um buffer (unat n) \<and>
   (\<forall>c \<in> set (snd (sys_write um files fw 1 buffer n)). length c \<le> 512) \<and>
   (\<forall>w. fst (sys_write um files fw 1 buffer n) = Returned w \<and> unat n < 2 ^ 31 \<longrightarrow>
        sint w = int (unat n))"
proof -
  have body: "fst (sys_write um files fw 1 buffer n) = Returned n \<and>
   concat (snd (sys_write um files fw 1 buffer n)) = putbuf um buffer (unat n) \<and>
   (\<forall>c \<in> set (snd (sys_write um files fw 1 buffer n)). length c \<le> 512)"
  proof (cases "n < 512")
    case True
    then have "unat n < 512"
      by (simp add: word_less_nat_alt)
    with True show ?thesis
      by (simp add: sys_write_def)
  next
    case False
    obtain len' written out where wl: "write_loop um buffer n 0 [] = (len', written, out)"
      by (cases "write_loop um buffer n 0 []")
    note inv = write_loop_inv [OF wl]
    from inv have le: "unat len' \<le> unat n" and l512: "unat len' \<le> 512"
      by (simp_all add: word_le_nat_alt)
    have w: "written = of_nat (unat n - unat len')"
      using inv by simp
    have "concat (out @ [putbuf um (buffer + written) (unat len')]) =
          putbuf um buffer (unat n - unat len') @
          putbuf um (buffer + of_nat (unat n - unat len')) (unat len')"
      using inv w by simp
    also have "\<dots> = putbuf um buffer ((unat n - unat len') + unat len')"
      by (simp add: putbuf_append)
    also have "\<dots> = putbuf um buffer (unat n)"
      using le by simp
    finally have c: "concat (out @ [putbuf um (buffer + written) (unat len')]) =
                     putbuf um buffer (unat n)" .
    have sz: "\<forall>c \<in> set (out @ [putbuf um (buffer + written) (unat len')]). length c \<le> 512"
      using inv l512 by auto
    have r: "written + len' = n"
      using inv by simp
    from False wl c sz r show ?thesis
      by (simp add: sys_write_def)
  qed
  moreover have "sint w = int (unat n)"
    if "fst (sys_write um files fw 1 buffer n) = Returned w \<and> unat n < 2 ^ 31" for w
  proof -
    from that body have "w = n" by simp
    with that show ?thesis
      using sint_small [of n] by simp
  qed
  ultimately show ?thesis by blast
qed

theorem console_write_chunks_witness:
  "fst (sys_write ex_mem [] (\<lambda>f b l. 0) 1 0x08048000 1300) = Returned 1300 \<and>
   concat (snd (sys_write ex_mem [] (\<lambda>f b l. 0) 1 0x08048000 1300)) =
     putbuf ex_mem 0x08048000 1300 \<and>
   map length (snd (sys_write ex_mem [] (\<lambda>f b l. 0) 1 0x08048000 1300)) = [512, 512, 276] \<and>
   unat (1300 :: 32 word) < 2 ^ 31 \<and> sint (1300 :: 32 word) = 1300"
proof -
  have u: "unat (1300 :: 32 word) = 1300" by simp
  have l: "map length (snd (sys_write ex_mem [] (\<lambda>f b l. 0) 1 0x08048000 1300)) =
             [512, 512, 276]"
    by (simp add: sys_write_def write_loop.simps)
  from console_write_chunks [of ex_mem "[]" "\<lambda>f b l. 0" "0x08048000" 1300] u l
  show ?thesis by simp
qed

section \<open>Writing to an unknown descriptor\<close>

text \<open>
  Claim C10.  For a descriptor other than 0 and 1 that no element of the thread's list
  carries, \<^verbatim>\<open>write\<close> ends in \<^verbatim>\<open>exit (-1)\<close> with nothing sent to the console, and so
  does the \<^verbatim>\<open>SYS_WRITE\<close> arm of the handler when the word at \<^verbatim>\<open>esp+1\<close> is that
  descriptor, whatever the other arguments are: no value is returned to the caller.
\<close>

theorem write_unknown_fd_exits:
  "n \<noteq> 0 \<and> n \<noteq> 1 \<and> n \<notin> fd ` set files \<longrightarrow>
     sys_write um files fw n buffer len = (Exited (- 1), []) \<and>
     (sint (word_at um (esp + 4)) = n \<longrightarrow>
        syscall_write um files fw esp = (Exited (- 1), []))"
proof (intro impI)
  assume a: "n \<noteq> 0 \<and> n \<noteq> 1 \<and> n \<notin> fd ` set files"
  then have "find_file_elem files n = None"
    by (simp add: find_file_elem_None)
  with a have w: "sys_write um files fw n b l = (Exited (- 1), [])" for b l
    by (simp add: sys_write_def)
  then show "sys_write um files fw n buffer len = (Exited (- 1), []) \<and>
     (sint (word_at um (esp + 4)) = n \<longrightarrow>
        syscall_write um files fw esp = (Exited (- 1), []))"
    by (simp add: syscall_write_def)
qed

theorem write_unknown_fd_exits_witness:
  "(7::int) \<noteq> 0 \<and> (7::int) \<noteq> 1 \<and> 7 \<notin> fd ` set ex_files \<and>
   sys_write ex_mem ex_files (\<lambda>f b l. l) 7 0x08048000 10 = (Exited (- 1), []) \<and>
   sint (word_at (ex_mem\<lparr>word_at := (word_at ex_mem)(ex_esp + 4 := 7)\<rparr>) (ex_esp + 4)) = 7 \<and>
   syscall_write (ex_mem\<lparr>word_at := (word_at ex_mem)(ex_esp + 4 := 7)\<rparr>) ex_files (\<lambda>f b l. l) ex_esp =
     (Exited (- 1), [])"
proof -
  have h: "(7::int) \<noteq> 0 \<and> (7::int) \<noteq> 1 \<and> 7 \<notin> fd ` set ex_files"
    by (simp add: ex_files_def)
  have s: "sint (word_at (ex_mem\<lparr>word_at := (word_at ex_mem)(ex_esp + 4 := 7)\<rparr>) (ex_esp + 4)) = 7"
    by simp
  from write_unknown_fd_exits
         [of 7 ex_files ex_mem "\<lambda>f b l. l" "0x08048000" 10 ex_esp] h
  have 1: "sys_write ex_mem ex_files (\<lambda>f b l. l) 7 0x08048000 10 = (Exited (- 1), [])"
    by blast
  from write_unknown_fd_exits
         [of 7 ex_files "ex_mem\<lparr>word_at := (word_at ex_mem)(ex_esp + 4 := 7)\<rparr>"
             "\<lambda>f b l. l" "0x08048000" 10 ex_esp] h s
  have 2: "syscall_write (ex_mem\<lparr>word_at := (word_at ex_mem)(ex_esp + 4 := 7)\<rparr>) ex_files
             (\<lambda>f b l. l) ex_esp = (Exited (- 1), [])"
    by blast
  from h s 1 2 show ?thesis by blast
qed

section \<open>The arguments of readdir and inumber\<close>

text \<open>
  Claim C8 does not hold of the code: the \<^verbatim>\<open>SYS_READDIR\<close> arm passes the address
  \<^verbatim>\<open>esp+1\<close>, not the word stored there, as the descriptor.  On the example the word at
  \<^verbatim>\<open>esp+1\<close> is 3, descriptor 3 is a directory whose next entry in use is \<open>b\<close>, so
  \<^verbatim>\<open>readdir (3, name)\<close> returns true and stores \<open>b\<close>; the system call returns false and
  stores nothing.
\<close>

theorem readdir_arm_passes_address:
  "check_valid_address ex_mem ex_esp \<and> check_valid_address ex_mem (ex_esp + 4) \<and>
   check_valid_address ex_mem (word_at ex_mem (ex_esp + 8)) \<and>
   word_at ex_mem (ex_esp + 4) = 3 \<and>
   readdir ex_kernel ex_files 3 =
     (True, Some ''b'', store_dir ex_files 3 \<lparr>inode = 2, pos = 1\<rparr>) \<and>
   syscall_readdir ex_mem ex_kernel ex_files ex_esp = (Returned 0, None, ex_files)"
  by (simp add: syscall_readdir_def readdir_def check_valid_address_def dir_readdir.simps
      eval_defs ex_defs ex_mem_def ex_esp_def ex_files_def)

text \<open>
  Claim C9 does not hold of the code: \<^verbatim>\<open>inumber\<close> is declared to return \<^verbatim>\<open>bool\<close>, so
  the sector number is turned into 0 or 1, and the \<^verbatim>\<open>SYS_INUMBER\<close> arm passes the address
  \<^verbatim>\<open>esp+1\<close> as the descriptor.  On the example descriptor 3 is open on the inode in
  sector 2; \<^verbatim>\<open>inumber (3)\<close> returns 1 and the system call returns 0.
\<close>

theorem inumber_arm_not_the_sector:
  "check_valid_address ex_mem ex_esp \<and> check_valid_address ex_mem (ex_esp + 4) \<and>
   word_at ex_mem (ex_esp + 4) = 3 \<and>
   find_file_elem ex_files 3 = Some (hd ex_files) \<and> isdir (hd ex_files) \<and>
   inode_get_inumber (dir_get_inode (fe_dir (hd ex_files))) = 2 \<and>
   inumber ex_files 3 = True \<and>
   Returned (of_bool (inumber ex_files 3)) = Returned 1 \<and>
   syscall_inumber ex_mem ex_files ex_esp = Returned 0"
  by (simp add: syscall_inumber_def inumber_def check_valid_address_def
      eval_defs ex_mem_def ex_esp_def ex_files_def)


section \<open>When dir\_remove succeeds\<close>

text \<open>
  \<^verbatim>\<open>dir_remove\<close> returns true exactly when \<^verbatim>\<open>lookup\<close> finds the name, the inode of the
  entry can be opened, the record is rewritten whole and, if the inode is a directory, no
  other handle has it open (its open count before the operation is 0), it is not in the
  root sector and none of its records is in use.
\<close>

theorem dir_remove_succeeds_iff:
  "fst (dir_remove wr_ok k d nm) \<longleftrightarrow>
     (\<exists>e ofs. lookup k d nm = Some (e, ofs) \<and> inodes k (inode_sector e) \<noteq> None \<and> wr_ok \<and>
        (inode_is_dir k (inode_sector e) \<longrightarrow>
           inode_get_open_cnt k (inode_sector e) = 0 \<and> inode_sector e \<noteq> ROOT_DIR_SECTOR \<and>
           dir_is_empty k (inode_sector e)))"
proof (cases "lookup k d nm")
  case None
  then show ?thesis by (simp add: dir_remove_def)
next
  case (Some r)
  obtain e ofs where r: "r = (e, ofs)" by (cases r)
  with Some have lk: "lookup k d nm = Some (e, ofs)" by simp
  note l = lookup_SomeD [OF lk]
  obtain h k1 where op: "inode_open k (inode_sector e) = (h, k1)"
    by (cases "inode_open k (inode_sector e)")
  note facts = inode_open_facts [OF op]
  have t1: "\<And>x. table k1 x = table k x"
    using table_inode_open [of k "inode_sector e"] op by simp
  show ?thesis
  proof (cases "inodes k (inode_sector e)")
    case None
    with facts(1) have "h = None" by simp
    with lk op None show ?thesis by (simp add: dir_remove_def)
  next
    case (Some i)
    with facts(1) have h: "h = Some (inode_sector e)" by simp
    have cnt: "inode_get_open_cnt k1 (inode_sector e) = Suc (inode_get_open_cnt k (inode_sector e))"
      using facts(3) [of "inode_sector e"] Some by simp
    have isd: "inode_is_dir k1 (inode_sector e) = inode_is_dir k (inode_sector e)"
      using facts(2) .
    have emp: "dir_is_empty k1 (inode_sector e) = dir_is_empty k (inode_sector e)"
      by (simp add: dir_is_empty_iff t1)
    have ex_d: "inodes k1 (inode d) \<noteq> None"
    proof
      assume "inodes k1 (inode d) = None"
      then have "table k1 (inode d) = []" by (simp add: table_def)
      with l(1) t1 show False by simp
    qed
    have wr: "fst (inode_write_at wr_ok k1 (inode d) (e\<lparr>in_use := False\<rparr>) ofs) = wr_ok"
      using ex_d l(1) t1 [of "inode d"]
      by (auto simp: inode_write_at_def table_def split: option.splits)
    obtain b k2 where w: "inode_write_at wr_ok k1 (inode d) (e\<lparr>in_use := False\<rparr>) ofs = (b, k2)"
      by (cases "inode_write_at wr_ok k1 (inode d) (e\<lparr>in_use := False\<rparr>) ofs")
    with wr have b: "b = wr_ok" by simp
    show ?thesis
      using lk op h cnt isd emp w b Some
      by (cases wr_ok)
         (auto simp: dir_remove_def inode_get_inumber_def ROOT_DIR_SECTOR_def)
  qed
qed

theorem dir_remove_succeeds_iff_witness:
  "fst (dir_remove True ex_kernel (ex_dir 2) ''e'') \<and>
   lookup ex_kernel (ex_dir 2) ''e'' = Some (\<lparr>inode_sector = 5, name = ''e'', in_use = True\<rparr>, 1) \<and>
   inode_is_dir ex_kernel 5 \<and> inode_get_open_cnt ex_kernel 5 = 0 \<and> dir_is_empty ex_kernel 5 \<and>
   \<not> fst (dir_remove True ex_kernel (ex_dir 2) ''b'') \<and> \<not> dir_is_empty ex_kernel 4"
proof -
  have l: "lookup ex_kernel (ex_dir 2) ''e'' =
             Some (\<lparr>inode_sector = 5, name = ''e'', in_use = True\<rparr>, 1)"
    by (simp add: eval_defs ex_defs)
  have c: "inodes ex_kernel 5 \<noteq> None \<and> inode_is_dir ex_kernel 5 \<and>
           inode_get_open_cnt ex_kernel 5 = 0 \<and> dir_is_empty ex_kernel 5 \<and>
           (5::nat) \<noteq> ROOT_DIR_SECTOR"
    by (simp add: eval_defs ex_defs)
  have lb: "lookup ex_kernel (ex_dir 2) ''b'' =
             Some (\<lparr>inode_sector = 4, name = ''b'', in_use = True\<rparr>, 0)"
    by (simp add: eval_defs ex_defs)
  have cb: "inode_is_dir ex_kernel 4 \<and> \<not> dir_is_empty ex_kernel 4"
    by (simp add: eval_defs ex_defs)
  from dir_remove_succeeds_iff [of True ex_kernel "ex_dir 2" "''e''"] l c
  have 1: "fst (dir_remove True ex_kernel (ex_dir 2) ''e'')" by simp
  from dir_remove_succeeds_iff [of True ex_kernel "ex_dir 2" "''b''"] lb cb
  have 2: "\<not> fst (dir_remove True ex_kernel (ex_dir 2) ''b'')" by simp
  from 1 2 l c cb show ?thesis by blast
qed

section \<open>The function readdir\<close>

text \<open>
  Called with a descriptor, \<^verbatim>\<open>readdir\<close> returns false and changes nothing when no element
  of the thread's list carries the descriptor or the element is not a directory; it
  returns false when no record at or after the cursor of the handle is in use; and when
  \<open>j\<close> is the first index at or after the cursor with a record in use, it returns true,
  stores the name of that record and leaves the cursor at \<open>j + 1\<close>.
\<close>

theorem readdir_contract:
  "(n \<notin> fd ` set files \<longrightarrow> readdir k files n = (False, None, files)) \<and>
   (find_file_elem files n = Some fe \<and> \<not> isdir fe \<longrightarrow>
      readdir k files n = (False, None, files)) \<and>
   (find_file_elem files n = Some fe \<and> isdir fe \<and>
    (\<forall>j. pos (fe_dir fe) \<le> j \<and> j < length (table k (inode (fe_dir fe))) \<longrightarrow>
         \<not> in_use (table k (inode (fe_dir fe)) ! j)) \<longrightarrow>
      fst (readdir k files n) = False \<and> fst (snd (readdir k files n)) = None) \<and>
   (find_file_elem files n = Some fe \<and> isdir fe \<and>
    pos (fe_dir fe) \<le> j \<and> j < length (table k (inode (fe_dir fe))) \<and>
    in_use (table k (inode (fe_dir fe)) ! j) \<and>
    (\<forall>i. pos (fe_dir fe) \<le> i \<and> i < j \<longrightarrow> \<not> in_use (table k (inode (fe_dir fe)) ! i)) \<longrightarrow>
      readdir k files n =
        (True, Some (take NAME_MAX (name (table k (inode (fe_dir fe)) ! j))),
         store_dir files n ((fe_dir fe)\<lparr>pos := Suc j\<rparr>)))"
proof (intro conjI impI)
  assume "n \<notin> fd ` set files"
  then show "readdir k files n = (False, None, files)"
    by (simp add: readdir_def find_file_elem_None [symmetric])
next
  assume "find_file_elem files n = Some fe \<and> \<not> isdir fe"
  then show "readdir k files n = (False, None, files)"
    by (simp add: readdir_def)
next
  let ?d = "fe_dir fe"
  let ?t = "table k (inode ?d)"
  assume a: "find_file_elem files n = Some fe \<and> isdir fe \<and>
    (\<forall>j. pos ?d \<le> j \<and> j < length ?t \<longrightarrow> \<not> in_use (?t ! j))"
  obtain r d' where rd: "dir_readdir k ?d = (r, d')"
    by (cases "dir_readdir k ?d")
  have "r = None"
  proof (cases r)
    case (Some nm)
    with dir_readdir_spec [OF rd] a show ?thesis by auto
  qed simp
  with a rd show "fst (readdir k files n) = False" and "fst (snd (readdir k files n)) = None"
    by (simp_all add: readdir_def)
next
  let ?d = "fe_dir fe"
  let ?t = "table k (inode ?d)"
  assume a: "find_file_elem files n = Some fe \<and> isdir fe \<and>
    pos ?d \<le> j \<and> j < length ?t \<and> in_use (?t ! j) \<and>
    (\<forall>i. pos ?d \<le> i \<and> i < j \<longrightarrow> \<not> in_use (?t ! i))"
  obtain r d' where rd: "dir_readdir k ?d = (r, d')"
    by (cases "dir_readdir k ?d")
  note sp = dir_readdir_spec [OF rd]
  have "r \<noteq> None"
    using sp a by (cases r) auto
  then obtain nm where r: "r = Some nm" by (cases r) auto
  with sp obtain j' where j': "pos ?d \<le> j'" "j' < length ?t" "in_use (?t ! j')"
    "\<forall>i. pos ?d \<le> i \<and> i < j' \<longrightarrow> \<not> in_use (?t ! i)"
    "nm = strlcpy (name (?t ! j')) (NAME_MAX + 1)" "pos d' = Suc j'"
    by auto
  have "j' = j"
  proof (rule ccontr)
    assume "j' \<noteq> j"
    then consider "j' < j" | "j < j'" by linarith
    then show False
    proof cases
      case 1
      with a j'(1,3) show False by blast
    next
      case 2
      with a j'(4) show False by blast
    qed
  qed
  with j' sp have "d' = ?d\<lparr>pos := Suc j\<rparr>" and "nm = take NAME_MAX (name (?t ! j))"
    by (simp_all add: strlcpy_def)
  with a rd r show "readdir k files n =
        (True, Some (take NAME_MAX (name (?t ! j))), store_dir files n (?d\<lparr>pos := Suc j\<rparr>))"
    by (simp add: readdir_def)
qed

theorem readdir_contract_witness:
  "find_file_elem ex_files 3 = Some (hd ex_files) \<and> isdir (hd ex_files) \<and>
   in_use (table ex_kernel 2 ! 0) \<and>
   readdir ex_kernel ex_files 3 =
     (True, Some ''b'', store_dir ex_files 3 \<lparr>inode = 2, pos = 1\<rparr>) \<and>
   9 \<notin> fd ` set ex_files \<and>
   readdir ex_kernel ex_files 9 = (False, None, ex_files) \<and>
   find_file_elem ex_files 4 = Some (ex_files ! 1) \<and> \<not> isdir (ex_files ! 1) \<and>
   readdir ex_kernel ex_files 4 = (False, None, ex_files)"
proof -
  have f3: "find_file_elem ex_files 3 = Some (hd ex_files) \<and> isdir (hd ex_files)"
    by (simp add: ex_files_def)
  have d3: "fe_dir (hd ex_files) = \<lparr>inode = 2, pos = 0\<rparr>"
    by (simp add: ex_files_def)
  have t2: "table ex_kernel 2 =
     [\<lparr>inode_sector = 4, name = ''b'', in_use = True\<rparr>,
      \<lparr>inode_sector = 5, name = ''e'', in_use = True\<rparr>]"
    by (simp add: table_def ex_defs)
  have u: "in_use (table ex_kernel 2 ! 0)"
    by (simp add: t2)
  have f9: "9 \<notin> fd ` set ex_files"
    by (simp add: ex_files_def)
  have f4: "find_file_elem ex_files 4 = Some (ex_files ! 1) \<and> \<not> isdir (ex_files ! 1)"
    by (simp add: ex_files_def)
  from readdir_contract [of 3 ex_files ex_kernel "hd ex_files" 0] f3 u
  have r3: "readdir ex_kernel ex_files 3 =
     (True, Some ''b'', store_dir ex_files 3 \<lparr>inode = 2, pos = 1\<rparr>)"
    by (simp add: d3 t2 NAME_MAX_def)
  from readdir_contract [of 9 ex_files ex_kernel] f9
  have r9: "readdir ex_kernel ex_files 9 = (False, None, ex_files)"
    by blast
  from readdir_contract [of 4 ex_files ex_kernel "ex_files ! 1"] f4
  have r4: "readdir ex_kernel ex_files 4 = (False, None, ex_files)"
    by blast
  from f3 u r3 f9 r9 f4 r4 show ?thesis by blast
qed

end
